theory Spec2Isabelle
  imports Main "HOL-Library.Word"
begin

unbundle bit_operations_syntax

section \<open>Strings and numbers as the TypeScript code prints and parses them\<close>

text \<open>
  Template literals such as \<^verbatim>\<open>`${pid}/${bufnr}`\<close> and \<^verbatim>\<open>`${port}.lock`\<close> print a number in
  decimal. JavaScript numbers that hold process ids, buffer numbers, ports and counters
  are integers far below \<open>2 ^ 53\<close>, where a double is exact; they are \<open>int\<close> or \<open>nat\<close> here.
\<close>

definition digit_char :: "nat \<Rightarrow> char" where
  "digit_char d = ''0123456789abcdef'' ! (d mod 16)"

fun show_nat :: "nat \<Rightarrow> string" where
  "show_nat n = (if n < 10 then [digit_char n] else show_nat (n div 10) @ [digit_char (n mod 10)])"

declare show_nat.simps [simp del]

definition show_int :: "int \<Rightarrow> string" where
  "show_int i = (if i < 0 then CHR ''-'' # show_nat (nat (- i)) else show_nat (nat i))"

text \<open>\<^verbatim>\<open>lines.join('\n')\<close>\<close>

fun join_lines :: "string list \<Rightarrow> string" where
  "join_lines [] = []"
| "join_lines [l] = l"
| "join_lines (l # ls) = l @ [CHR 0x0A] @ join_lines ls"

section \<open>ws-server.ts: the lock file and the authenticated listener\<close>

text \<open>
  The lock file holds \<^verbatim>\<open>JSON.stringify(lockData, null, 2)\<close>; the model keeps the JSON value
  that is serialised.
\<close>

datatype json = JNum int | JStr string | JArr "json list" | JObj "(string \<times> json) list"

record LockFile =
  lf_pid :: int
  lf_workspaceFolders :: "string list"
  lf_ideName :: string
  lf_transport :: string
  lf_authToken :: string

definition lock_json :: "LockFile \<Rightarrow> json" where
  "lock_json d = JObj
     [(''pid'', JNum (lf_pid d)),
      (''workspaceFolders'', JArr (map JStr (lf_workspaceFolders d))),
      (''ideName'', JStr (lf_ideName d)),
      (''transport'', JStr (lf_transport d)),
      (''authToken'', JStr (lf_authToken d))]"

record ClaudeWebSocketServerConfig =
  cfg_port :: int
  cfg_path :: "string option"
  cfg_workspaceFolders :: "string list option"
  cfg_ideName :: "string option"

text \<open>The process and its file system: \<^verbatim>\<open>process.pid\<close>, \<^verbatim>\<open>process.cwd()\<close>, \<^verbatim>\<open>homedir()\<close>.\<close>

record process_env =
  proc_pid :: int
  proc_cwd :: string
  proc_home :: string

record filesystem =
  dirs :: "string set"
  files :: "string \<rightharpoonup> json"

text \<open>
  \<^verbatim>\<open>crypto.randomUUID()\<close> belongs to Node, not to this repository. It draws 16 random
  bytes, stamps the version and variant bits (RFC 4122, version 4) and prints them as
  lower-case hexadecimal in groups of 4, 2, 2, 2 and 6 bytes. The random bytes are an input.
\<close>

definition hex_byte :: "8 word \<Rightarrow> string" where
  "hex_byte b = [digit_char (unat b div 16), digit_char (unat b mod 16)]"

definition uuid_bytes :: "(nat \<Rightarrow> 8 word) \<Rightarrow> 8 word list" where
  "uuid_bytes rnd = map (\<lambda>i. if i = 6 then (rnd i AND 0x0f) OR 0x40
                              else if i = 8 then (rnd i AND 0x3f) OR 0x80
                              else rnd i) [0..<16]"

definition hex_bytes :: "8 word list \<Rightarrow> string" where
  "hex_bytes bs = concat (map hex_byte bs)"

definition randomUUID :: "(nat \<Rightarrow> 8 word) \<Rightarrow> string" where
  "randomUUID rnd =
     (let bs = uuid_bytes rnd in
      hex_bytes (take 4 bs) @ ''-'' @ hex_bytes (take 2 (drop 4 bs)) @ ''-'' @
      hex_bytes (take 2 (drop 6 bs)) @ ''-'' @ hex_bytes (take 2 (drop 8 bs)) @ ''-'' @
      hex_bytes (drop 10 bs))"

text \<open>\<^verbatim>\<open>x || d\<close> on an optional string: \<^verbatim>\<open>undefined\<close> and the empty string are falsy.\<close>

definition or_default :: "string option \<Rightarrow> string \<Rightarrow> string" where
  "or_default x d = (case x of None \<Rightarrow> d | Some s \<Rightarrow> if s = [] then d else s)"

text \<open>Lock file path: \<^verbatim>\<open>~/.claude/ide/[port].lock\<close>\<close>

definition claudeDir :: "process_env \<Rightarrow> string" where
  "claudeDir env = proc_home env @ ''/.claude/ide''"

definition lockFilePath :: "process_env \<Rightarrow> int \<Rightarrow> string" where
  "lockFilePath env port = claudeDir env @ ''/'' @ show_int port @ ''.lock''"

text \<open>
  The value of a request header in Node: absent, one string, or a list of strings.
  \<^verbatim>\<open>authHeader === authToken\<close> holds for a string equal to the token only.
\<close>

datatype header_value = Absent | Single string | Multiple "string list"

definition strict_eq_token :: "header_value \<Rightarrow> string \<Rightarrow> bool" where
  "strict_eq_token h tok = (case h of Single s \<Rightarrow> s = tok | _ \<Rightarrow> False)"

text \<open>What \<open>verifyClient\<close> hands to its callback.\<close>

datatype verdict = Accepted | Rejected nat string

definition verifyClient :: "string \<Rightarrow> header_value \<Rightarrow> verdict" where
  "verifyClient authToken authHeader =
     (if strict_eq_token authHeader authToken then Accepted
      else Rejected 401 ''Unauthorized'')"

text \<open>The \<open>WebSocketServer\<close> object returned by \<open>createClaudeWebSocketServer\<close>.\<close>

record wss =
  wss_host :: string
  wss_port :: int
  wss_path :: string
  wss_authToken :: string
  wss_lockFilePath :: string

datatype error =
    AlreadyRunning | NotRunning | BadPort | InvalidBuffer | CommandFailed string

text \<open>
  The lock file is written before the listener is constructed; a port outside
  \<open>0..65535\<close> makes the constructor throw after the file is on disk.
\<close>

definition createClaudeWebSocketServer ::
  "process_env \<Rightarrow> (nat \<Rightarrow> 8 word) \<Rightarrow> ClaudeWebSocketServerConfig \<Rightarrow> filesystem
     \<Rightarrow> (error + wss) \<times> filesystem" where
  "createClaudeWebSocketServer env rnd config fs =
     (let port = cfg_port config;
          path = or_default (cfg_path config) ''/'';
          workspaceFolders =
            (case cfg_workspaceFolders config of None \<Rightarrow> [proc_cwd env] | Some ws \<Rightarrow> ws);
          ideName = or_default (cfg_ideName config) ''neovim'';
          authToken = randomUUID rnd;
          lockData = \<lparr>lf_pid = proc_pid env, lf_workspaceFolders = workspaceFolders,
                      lf_ideName = ideName, lf_transport = ''ws'', lf_authToken = authToken\<rparr>;
          fs1 = (if claudeDir env \<in> dirs fs then fs
                 else fs\<lparr>dirs := insert (claudeDir env)
                                  (insert (proc_home env @ ''/.claude'') (dirs fs))\<rparr>);
          fs2 = fs1\<lparr>files := (files fs1)(lockFilePath env port \<mapsto> lock_json lockData)\<rparr>
      in if 0 \<le> port \<and> port \<le> 65535
         then (Inr \<lparr>wss_host = ''127.0.0.1'', wss_port = port, wss_path = path,
                    wss_authToken = authToken,
                    wss_lockFilePath = lockFilePath env port\<rparr>, fs2)
         else (Inl BadPort, fs2))"

text \<open>The \<^verbatim>\<open>'close'\<close> listener registered on the server: unlink the lock file if it exists.\<close>

definition wss_on_close :: "wss \<Rightarrow> filesystem \<Rightarrow> filesystem" where
  "wss_on_close w fs =
     (if files fs (wss_lockFilePath w) \<noteq> None
      then fs\<lparr>files := (files fs)(wss_lockFilePath w := None)\<rparr> else fs)"

section \<open>The editor, as far as the plugin reads and writes it\<close>

text \<open>
  Neovim is reached by RPC. The model keeps what the plugin observes: the valid buffers
  with their lines, their \<open>modified\<close> flag, name and other options, the process id, the
  current buffer, the mode and the cursor, the working directory, the global variable
  \<open>g:claude_ide_port\<close>.
\<close>

datatype opt_value = OStr string | OBool bool

record buffer =
  buf_lines :: "string list"
  buf_modified :: bool
  buf_name :: string
  buf_options :: "string \<rightharpoonup> opt_value"

record editor =
  ed_buffers :: "int \<rightharpoonup> buffer"
  ed_last_bufnr :: int
  ed_pid :: int
  ed_current :: int
  ed_mode :: string
  ed_vpos :: "int \<times> int"
  ed_curpos :: "int \<times> int"
  ed_cwd :: string
  ed_port_var :: int

text \<open>
  What Neovim computes by itself is taken from the editor as given functions: the effect
  of an Ex command (\<^verbatim>\<open>nvim.command\<close>, which may fail), the buffer number that
  \<^verbatim>\<open>bufnr({name})\<close> finds (\<open>-1\<close> when there is none) and the value of \<^verbatim>\<open>exists({expr})\<close>.
\<close>

record host =
  ex_command :: "string \<Rightarrow> editor \<Rightarrow> error + editor"
  fn_bufnr :: "editor \<Rightarrow> string \<Rightarrow> int"
  fn_exists :: "editor \<Rightarrow> string \<Rightarrow> int"

text \<open>\<^verbatim>\<open>buffer.lines\<close> and \<^verbatim>\<open>buffer.setOption\<close> fail on a buffer that is no longer valid.\<close>

definition buffer_lines :: "int \<Rightarrow> editor \<Rightarrow> error + string list" where
  "buffer_lines b ed = (case ed_buffers ed b of None \<Rightarrow> Inl InvalidBuffer
                        | Some buf \<Rightarrow> Inr (buf_lines buf))"

definition set_modified :: "int \<Rightarrow> bool \<Rightarrow> editor \<Rightarrow> error + editor" where
  "set_modified b v ed = (case ed_buffers ed b of None \<Rightarrow> Inl InvalidBuffer
     | Some buf \<Rightarrow> Inr (ed\<lparr>ed_buffers := (ed_buffers ed)(b \<mapsto> buf\<lparr>buf_modified := v\<rparr>)\<rparr>))"

definition setOption :: "int \<Rightarrow> string \<Rightarrow> opt_value \<Rightarrow> editor \<Rightarrow> error + editor" where
  "setOption b opt v ed = (case ed_buffers ed b of None \<Rightarrow> Inl InvalidBuffer
     | Some buf \<Rightarrow> Inr (ed\<lparr>ed_buffers :=
         (ed_buffers ed)(b \<mapsto> buf\<lparr>buf_options := (buf_options buf)(opt \<mapsto> v)\<rparr>)\<rparr>))"

text \<open>\<^verbatim>\<open>buffers.find(buf => buf.id === bufnr)\<close>; \<open>None\<close> as the number is \<^verbatim>\<open>NaN\<close>.\<close>

definition find_buffer :: "editor \<Rightarrow> int option \<Rightarrow> int option" where
  "find_buffer ed bufnr = (case bufnr of None \<Rightarrow> None
     | Some b \<Rightarrow> (if ed_buffers ed b \<noteq> None then Some b else None))"

section \<open>Parsing the correlation key\<close>

text \<open>
  \<^verbatim>\<open>parseInt(s)\<close> without a radix: skip leading white space, read a sign, take base 16
  after \<^verbatim>\<open>0x\<close> and base 10 otherwise, read the longest run of digits; no digit at all is
  \<^verbatim>\<open>NaN\<close>, here \<open>None\<close>.
\<close>

definition is_ws :: "char \<Rightarrow> bool" where
  "is_ws c = (c \<in> set [CHR 0x20, CHR 0x09, CHR 0x0A, CHR 0x0B, CHR 0x0C, CHR 0x0D])"

definition digit_of :: "char \<Rightarrow> nat" where
  "digit_of c =
     (let n = of_char c :: nat in
      if 48 \<le> n \<and> n \<le> 57 then n - 48
      else if 97 \<le> n \<and> n \<le> 122 then n - 87
      else if 65 \<le> n \<and> n \<le> 90 then n - 55
      else 36)"

definition digits_value :: "nat \<Rightarrow> string \<Rightarrow> nat" where
  "digits_value radix ds = foldl (\<lambda>acc c. acc * radix + digit_of c) 0 ds"

definition parse_radix :: "nat \<Rightarrow> bool \<Rightarrow> string \<Rightarrow> int option" where
  "parse_radix radix neg s =
     (let ds = takeWhile (\<lambda>c. digit_of c < radix) s in
      if ds = [] then None
      else Some ((if neg then - 1 else 1) * int (digits_value radix ds)))"

definition parse_unsigned :: "bool \<Rightarrow> string \<Rightarrow> int option" where
  "parse_unsigned neg s =
     (if take 2 s = ''0x'' \<or> take 2 s = ''0X'' then parse_radix 16 neg (drop 2 s)
      else parse_radix 10 neg s)"

definition parseInt :: "string \<Rightarrow> int option" where
  "parseInt s =
     (case dropWhile is_ws s of
        [] \<Rightarrow> None
      | c # r \<Rightarrow> if c = CHR ''-'' then parse_unsigned True r
                 else if c = CHR ''+'' then parse_unsigned False r
                 else parse_unsigned False (c # r))"

text \<open>\<^verbatim>\<open>s.split('/')\<close>\<close>

fun split_on :: "char \<Rightarrow> string \<Rightarrow> string list" where
  "split_on sep [] = [[]]"
| "split_on sep (c # cs) =
     (if c = sep then [] # split_on sep cs
      else (c # hd (split_on sep cs)) # tl (split_on sep cs))"

text \<open>
  \<^verbatim>\<open>parseInt(changeId.split('/')[1])\<close>; a key without a second part gives
  \<^verbatim>\<open>parseInt(undefined)\<close>, which is \<^verbatim>\<open>NaN\<close>.
\<close>

definition changeId_bufnr :: "string \<Rightarrow> int option" where
  "changeId_bufnr changeId =
     (case split_on (CHR ''/'') changeId of
        _ # seg # _ \<Rightarrow> parseInt seg
      | _ \<Rightarrow> None)"

text \<open>\<^verbatim>\<open>`${pid}/${bufnr}`\<close>\<close>

definition mk_changeId :: "int \<Rightarrow> int \<Rightarrow> string" where
  "mk_changeId p b = show_int p @ ''/'' @ show_int b"

section \<open>mcp-tools.ts: the pending diffs of one client\<close>

text \<open>
  A tool result is a list of text items. A promise is named by a number; \<open>resolve\<close> on a
  promise that is already settled changes nothing, as in JavaScript. Every call of a
  \<open>resolve\<close> function is also recorded, in order.
\<close>

datatype content_item = Text string

type_synonym payload = "content_item list"

record diff_entry =
  de_promise :: nat
  de_filePath :: string
  de_bufnr :: int

datatype LogLevel = ERROR | WARN | INFO | DEBUG

fun level_num :: "LogLevel \<Rightarrow> nat" where
  "level_num ERROR = 0"
| "level_num WARN = 1"
| "level_num INFO = 2"
| "level_num DEBUG = 3"

text \<open>
  The state that the closure of one \<open>registerNvimMcpTools\<close> call reads and writes: the
  editor, its own \<open>diffPromises\<close> map, the promises, and the log written through
  \<^verbatim>\<open>nvim.outWrite\<close> (level and message; a failure to write is swallowed by the logger).
\<close>

record tools =
  nvim :: editor
  diffPromises :: "string \<rightharpoonup> diff_entry"
  settled :: "nat \<rightharpoonup> payload"
  resolve_calls :: "(nat \<times> payload) list"
  next_promise :: nat
  logLevel :: LogLevel
  out :: "(LogLevel \<times> string) list"

definition log_write :: "LogLevel \<Rightarrow> string \<Rightarrow> tools \<Rightarrow> tools" where
  "log_write level message t =
     (if level_num level > level_num (logLevel t) then t
      else t\<lparr>out := out t @ [(level, message)]\<rparr>)"

definition resolve :: "nat \<Rightarrow> payload \<Rightarrow> tools \<Rightarrow> tools" where
  "resolve p v t =
     t\<lparr>settled := (if settled t p = None then (settled t)(p \<mapsto> v) else settled t),
       resolve_calls := resolve_calls t @ [(p, v)]\<rparr>"

definition show_bufnr :: "int option \<Rightarrow> string" where
  "show_bufnr b = (case b of None \<Rightarrow> ''NaN'' | Some i \<Rightarrow> show_int i)"

definition FILE_SAVED :: "string \<Rightarrow> payload" where
  "FILE_SAVED content = [Text ''FILE_SAVED'', Text content]"

definition DIFF_REJECTED :: payload where
  "DIFF_REJECTED = [Text ''DIFF_REJECTED'']"

definition TAB_CLOSED :: payload where
  "TAB_CLOSED = [Text ''TAB_CLOSED'']"

subsection \<open>acceptChanges and dropChanges as one uninterrupted call\<close>

text \<open>
  The body of each handler, read top to bottom on an editor that nothing else changes
  while the call runs. The \<^verbatim>\<open>catch\<close> branch is taken when an editor request fails.
\<close>

definition acceptChanges :: "string \<Rightarrow> tools \<Rightarrow> bool \<times> tools" where
  "acceptChanges changeId t =
     (case diffPromises t changeId of
        None \<Rightarrow> (False, t)
      | Some e \<Rightarrow>
          (let rslv = de_promise e; filePath = de_filePath e;
               bufnr = changeId_bufnr changeId
           in case find_buffer (nvim t) bufnr of
                None \<Rightarrow> (False, log_write ERROR (''Buffer '' @ show_bufnr bufnr @ '' not found'') t)
              | Some b \<Rightarrow>
                  (case buffer_lines b (nvim t) of
                     Inl _ \<Rightarrow> (False, log_write ERROR ''Error accepting changes: Invalid buffer id'' t)
                   | Inr ls \<Rightarrow>
                       (let content = join_lines ls in
                        case set_modified b False (nvim t) of
                          Inl _ \<Rightarrow>
                            (False, log_write ERROR ''Error accepting changes: Invalid buffer id'' t)
                        | Inr ed \<Rightarrow>
                            (let t1 = t\<lparr>nvim := ed\<rparr>;
                                 t2 = t1\<lparr>diffPromises := (diffPromises t1)(changeId := None)\<rparr>;
                                 t3 = resolve rslv (FILE_SAVED content) t2
                             in (True, log_write INFO (''Accepted changes for '' @ filePath) t3))))))"

definition dropChanges :: "string \<Rightarrow> tools \<Rightarrow> bool \<times> tools" where
  "dropChanges changeId t =
     (case diffPromises t changeId of
        None \<Rightarrow> (False, t)
      | Some e \<Rightarrow>
          (let rslv = de_promise e in
           case (case find_buffer (nvim t) (changeId_bufnr changeId) of
                   None \<Rightarrow> Inr (nvim t)
                 | Some b \<Rightarrow> set_modified b False (nvim t)) of
             Inl _ \<Rightarrow> (False, log_write ERROR ''Error rejecting changes: Invalid buffer id'' t)
           | Inr ed \<Rightarrow>
               (let t1 = t\<lparr>nvim := ed\<rparr>;
                    t2 = t1\<lparr>diffPromises := (diffPromises t1)(changeId := None)\<rparr>;
                    t3 = resolve rslv DIFF_REJECTED t2
                in (True, log_write INFO ''Rejected changes'' t3))))"

subsection \<open>acceptChanges and dropChanges, await by await\<close>

text \<open>
  An \<^verbatim>\<open>async\<close> function runs without interruption up to its next \<^verbatim>\<open>await\<close>; there
  other handlers may run and the editor may change. The program counter of a call names
  the \<^verbatim>\<open>await\<close> at which the call is suspended, with the local variables it holds. One
  step performs the awaited RPC and runs the call to its next \<^verbatim>\<open>await\<close> on an editor
  request (the \<^verbatim>\<open>await\<close> of a log line before a \<^verbatim>\<open>return\<close> is part of the step).
\<close>

datatype accept_pc =
    A_entry
  | A_buffers nat string
  | A_lines nat string int
  | A_setOption nat string int string
  | A_return bool

definition accept_catch :: "tools \<Rightarrow> accept_pc \<times> tools" where
  "accept_catch t = (A_return False, log_write ERROR ''Error accepting changes: Invalid buffer id'' t)"

fun accept_step :: "string \<Rightarrow> accept_pc \<Rightarrow> tools \<Rightarrow> accept_pc \<times> tools" where
  "accept_step changeId A_entry t =
     (case diffPromises t changeId of
        None \<Rightarrow> (A_return False, t)
      | Some e \<Rightarrow> (A_buffers (de_promise e) (de_filePath e), t))"
| "accept_step changeId (A_buffers rslv filePath) t =
     (let bufnr = changeId_bufnr changeId in
      case find_buffer (nvim t) bufnr of
        None \<Rightarrow> (A_return False,
                 log_write ERROR (''Buffer '' @ show_bufnr bufnr @ '' not found'') t)
      | Some b \<Rightarrow> (A_lines rslv filePath b, t))"
| "accept_step changeId (A_lines rslv filePath b) t =
     (case buffer_lines b (nvim t) of
        Inl _ \<Rightarrow> accept_catch t
      | Inr ls \<Rightarrow> (A_setOption rslv filePath b (join_lines ls), t))"
| "accept_step changeId (A_setOption rslv filePath b content) t =
     (case set_modified b False (nvim t) of
        Inl _ \<Rightarrow> accept_catch t
      | Inr ed \<Rightarrow>
          (let t1 = t\<lparr>nvim := ed\<rparr>;
               t2 = t1\<lparr>diffPromises := (diffPromises t1)(changeId := None)\<rparr>;
               t3 = resolve rslv (FILE_SAVED content) t2
           in (A_return True, log_write INFO (''Accepted changes for '' @ filePath) t3)))"
| "accept_step changeId (A_return r) t = (A_return r, t)"

datatype drop_pc =
    D_entry
  | D_buffers nat
  | D_setOption nat int
  | D_return bool

definition drop_finish :: "string \<Rightarrow> nat \<Rightarrow> tools \<Rightarrow> drop_pc \<times> tools" where
  "drop_finish changeId rslv t =
     (let t2 = t\<lparr>diffPromises := (diffPromises t)(changeId := None)\<rparr>;
          t3 = resolve rslv DIFF_REJECTED t2
      in (D_return True, log_write INFO ''Rejected changes'' t3))"

fun drop_step :: "string \<Rightarrow> drop_pc \<Rightarrow> tools \<Rightarrow> drop_pc \<times> tools" where
  "drop_step changeId D_entry t =
     (case diffPromises t changeId of
        None \<Rightarrow> (D_return False, t)
      | Some e \<Rightarrow> (D_buffers (de_promise e), t))"
| "drop_step changeId (D_buffers rslv) t =
     (case find_buffer (nvim t) (changeId_bufnr changeId) of
        Some b \<Rightarrow> (D_setOption rslv b, t)
      | None \<Rightarrow> drop_finish changeId rslv t)"
| "drop_step changeId (D_setOption rslv b) t =
     (case set_modified b False (nvim t) of
        Inl _ \<Rightarrow> (D_return False,
                  log_write ERROR ''Error rejecting changes: Invalid buffer id'' t)
      | Inr ed \<Rightarrow> drop_finish changeId rslv (t\<lparr>nvim := ed\<rparr>))"
| "drop_step changeId (D_return r) t = (D_return r, t)"

text \<open>
  Running a suspended call alone, with a bound on the number of steps; \<open>None\<close> is a call
  that has not returned within the bound.
\<close>

fun accept_run :: "nat \<Rightarrow> string \<Rightarrow> accept_pc \<Rightarrow> tools \<Rightarrow> (bool \<times> tools) option" where
  "accept_run n changeId (A_return r) t = Some (r, t)"
| "accept_run 0 changeId pc t = None"
| "accept_run (Suc n) changeId pc t =
     (case accept_step changeId pc t of (pc', t') \<Rightarrow> accept_run n changeId pc' t')"

fun drop_run :: "nat \<Rightarrow> string \<Rightarrow> drop_pc \<Rightarrow> tools \<Rightarrow> (bool \<times> tools) option" where
  "drop_run n changeId (D_return r) t = Some (r, t)"
| "drop_run 0 changeId pc t = None"
| "drop_run (Suc n) changeId pc t =
     (case drop_step changeId pc t of (pc', t') \<Rightarrow> drop_run n changeId pc' t')"

text \<open>
  Calls in flight together: a schedule names, step by step, the call that is resumed.
\<close>

datatype call = AcceptCall string accept_pc | DropCall string drop_pc

fun call_step :: "call \<Rightarrow> tools \<Rightarrow> call \<times> tools" where
  "call_step (AcceptCall k pc) t = (case accept_step k pc t of (pc', t') \<Rightarrow> (AcceptCall k pc', t'))"
| "call_step (DropCall k pc) t = (case drop_step k pc t of (pc', t') \<Rightarrow> (DropCall k pc', t'))"

fun run_schedule :: "nat list \<Rightarrow> call list \<Rightarrow> tools \<Rightarrow> call list \<times> tools" where
  "run_schedule [] cs t = (cs, t)"
| "run_schedule (i # sched) cs t =
     (if i < length cs
      then (case call_step (cs ! i) t of (c', t') \<Rightarrow> run_schedule sched (cs[i := c']) t')
      else run_schedule sched cs t)"

subsection \<open>The tools openDiff and close_tab\<close>

text \<open>\<^verbatim>\<open>nvim_create_buf(true, false)\<close>: a new, empty, listed buffer with the next number.\<close>

definition nvim_create_buf :: "editor \<Rightarrow> int \<times> editor" where
  "nvim_create_buf ed =
     (let b = ed_last_bufnr ed + 1 in
      (b, ed\<lparr>ed_buffers := (ed_buffers ed)(b \<mapsto> \<lparr>buf_lines = [[]], buf_modified = False,
                                                 buf_name = [], buf_options = Map.empty\<rparr>),
             ed_last_bufnr := b\<rparr>))"

definition setLines :: "int \<Rightarrow> string list \<Rightarrow> editor \<Rightarrow> error + editor" where
  "setLines b ls ed = (case ed_buffers ed b of None \<Rightarrow> Inl InvalidBuffer
     | Some buf \<Rightarrow> Inr (ed\<lparr>ed_buffers :=
         (ed_buffers ed)(b \<mapsto> buf\<lparr>buf_lines := ls, buf_modified := True\<rparr>)\<rparr>))"

text \<open>\<^verbatim>\<open>buf.name = tab_name\<close> is not awaited: a failure goes unnoticed.\<close>

definition set_name :: "int \<Rightarrow> string \<Rightarrow> editor \<Rightarrow> editor" where
  "set_name b n ed = (case ed_buffers ed b of None \<Rightarrow> ed
     | Some buf \<Rightarrow> ed\<lparr>ed_buffers := (ed_buffers ed)(b \<mapsto> buf\<lparr>buf_name := n\<rparr>)\<rparr>)"

text \<open>\<^verbatim>\<open>path.extname\<close>: from the last dot of the last path component, unless that dot opens it.\<close>

definition basename :: "string \<Rightarrow> string" where
  "basename p = last (split_on (CHR ''/'') (rev (dropWhile (\<lambda>c. c = CHR ''/'') (rev p))))"

definition extname :: "string \<Rightarrow> string" where
  "extname p =
     (let base = basename p in
      if base = ''..'' \<or> CHR ''.'' \<notin> set base then []
      else (let ext = rev (takeWhile (\<lambda>c. c \<noteq> CHR ''.'') (rev base)) in
            if length base = length ext + 1 then [] else CHR ''.'' # ext))"

text \<open>
  A chain of editor requests that stops at the first one that fails; the editor keeps
  what the earlier requests did.
\<close>

definition then_ed ::
  "error option \<times> editor \<Rightarrow> (editor \<Rightarrow> error + editor) \<Rightarrow> error option \<times> editor" where
  "then_ed r f =
     (case r of
        (Some e, ed) \<Rightarrow> (Some e, ed)
      | (None, ed) \<Rightarrow> (case f ed of Inl e \<Rightarrow> (Some e, ed) | Inr ed' \<Rightarrow> (None, ed')))"

definition commandExists :: "host \<Rightarrow> string \<Rightarrow> editor \<Rightarrow> bool" where
  "commandExists h command ed = (fn_exists h ed (CHR '':'' # command) = 2)"

definition command_if_exists :: "host \<Rightarrow> string \<Rightarrow> string \<Rightarrow> editor \<Rightarrow> error + editor" where
  "command_if_exists h command args ed =
     (if commandExists h command ed then ex_command h (command @ '' '' @ args) ed else Inr ed)"

text \<open>
  \<open>openDiff\<close> up to the point where it waits for the decision: on success it has a new
  record under the key \<^verbatim>\<open>`${pid}/${bufnr}`\<close> and returns the key and the promise it awaits.
  The tool call answers \<^verbatim>\<open>{content: v}\<close> once that promise is settled with \<open>v\<close>.
\<close>

definition openDiff ::
  "host \<Rightarrow> string \<Rightarrow> string \<Rightarrow> string \<Rightarrow> string \<Rightarrow> tools
     \<Rightarrow> (error + string \<times> nat) \<times> tools" where
  "openDiff h old_file_path new_file_path new_file_contents tab_name t =
     (case nvim_create_buf (nvim t) of (bufnr, ed1) \<Rightarrow>
      (let pid = ed_pid ed1;
           changeId = mk_changeId pid bufnr;
           r1 = then_ed (None, ed1) (command_if_exists h ''ClaudeActivateBufferDiff'' (show_int bufnr));
           buffer = ed_current (snd r1);
           r2 = then_ed r1 (setOption buffer ''buftype'' (OStr ''acwrite''));
           r3 = then_ed r2 (setOption buffer ''swapfile'' (OBool False));
           r4 = then_ed r3 (setLines buffer (split_on (CHR 0x0A) new_file_contents));
           r5 = then_ed r4 (\<lambda>ed. Inr (set_name bufnr tab_name ed));
           fileExt = drop 1 (extname new_file_path);
           r6 = then_ed r5 (\<lambda>ed. if fileExt \<noteq> [] then setOption buffer ''filetype'' (OStr fileExt) ed
                                  else Inr ed);
           r7 = then_ed r6 (ex_command h (''autocmd BufWriteCmd <buffer='' @ show_int bufnr @
                                          ''> ClaudeAccept''));
           r8 = then_ed r7 (command_if_exists h ''ClaudeShowFileDiff''
                              (show_int bufnr @ '' '' @ new_file_path))
       in case r8 of
            (Some e, ed) \<Rightarrow> (Inl e, t\<lparr>nvim := ed\<rparr>)
          | (None, ed) \<Rightarrow>
              (let p = next_promise t in
               (Inr (changeId, p),
                t\<lparr>nvim := ed,
                  diffPromises := (diffPromises t)(changeId \<mapsto>
                     \<lparr>de_promise = p, de_filePath = new_file_path, de_bufnr = bufnr\<rparr>),
                  next_promise := p + 1\<rparr>))))"

definition close_tab :: "host \<Rightarrow> string \<Rightarrow> tools \<Rightarrow> (error + payload) \<times> tools" where
  "close_tab h tab_name t =
     (let bufnr = fn_bufnr h (nvim t) tab_name in
      if bufnr \<noteq> - 1 then
        (let pid = ed_pid (nvim t);
             changeId = mk_changeId pid bufnr;
             isDiffBuffer = (diffPromises t changeId \<noteq> None);
             cmd = (if isDiffBuffer then ''bdelete! '' else ''bdelete '') @ show_int bufnr
         in case ex_command h cmd (nvim t) of
              Inl e \<Rightarrow> (Inl e, t)
            | Inr ed \<Rightarrow> (Inr TAB_CLOSED, t\<lparr>nvim := ed\<rparr>))
      else (Inr TAB_CLOSED, t))"

section \<open>The server manager (class ClaudeMcpServerManager)\<close>

datatype ready_state = CONNECTING | OPEN | CLOSING | CLOSED

record selection_params =
  sel_text :: string
  sel_filePath :: string
  sel_fileUrl :: string
  sel_start :: "int \<times> int"
  sel_end :: "int \<times> int"
  sel_isEmpty :: bool

text \<open>
  The frames the manager writes to a socket itself: the \<open>ping\<close> request with its \<open>id\<close>,
  and the \<open>selection_changed\<close> notification with its \<open>params\<close>.
\<close>

datatype frame = Ping nat | Selection_changed selection_params

text \<open>A WebSocket: its \<open>readyState\<close> and the frames handed to \<^verbatim>\<open>ws.send\<close>, in order.\<close>

record socket =
  readyState :: ready_state
  outbox :: "frame list"

text \<open>
  The closure of one \<^verbatim>\<open>setInterval\<close> callback of \<open>handleClient\<close>: its socket, its
  \<open>pingId\<close>, and whether the interval is still set.
\<close>

record heartbeat =
  hb_ws :: nat
  hb_pingId :: nat
  hb_active :: bool

text \<open>
  What is done to timers, sessions and the listener, in the order in which it is done:
  \<^verbatim>\<open>clearInterval\<close> of an interval, \<^verbatim>\<open>mcpServer.close()\<close> for the session of a socket,
  \<^verbatim>\<open>ws.close()\<close> on a socket, and the close of the listener.
\<close>

datatype event = ClearInterval nat | McpServerClose nat nat | WsClose nat | ServerClose

text \<open>
  The fields of the class. \<open>clientServers\<close> is a \<open>Map\<close> in insertion order from a socket to
  its MCP server; each element of \<open>changeHandlers\<close> is the \<open>diffPromises\<close> map that the
  handlers of one \<open>registerNvimMcpTools\<close> call close over.
\<close>

record manager =
  wss :: "wss option"
  port :: int
  clientServers :: "(nat \<times> nat) list"
  changeHandlers :: "(string \<rightharpoonup> diff_entry) list"
  selectionTracking :: "int \<rightharpoonup> int"
  lastSelectionBuffer :: "int option"
  healthCheckIntervals :: "nat \<rightharpoonup> nat"

text \<open>Everything outside the manager object that its methods read or write.\<close>

record sys =
  sy_nvim :: editor
  sy_settled :: "nat \<rightharpoonup> payload"
  sy_resolve_calls :: "(nat \<times> payload) list"
  sy_next_promise :: nat
  sy_logLevel :: LogLevel
  sy_out :: "(LogLevel \<times> string) list"
  sockets :: "nat \<Rightarrow> socket"
  timers :: "nat \<rightharpoonup> heartbeat"
  next_timer :: nat
  sy_fs :: filesystem
  events :: "event list"

definition tools_of :: "sys \<Rightarrow> (string \<rightharpoonup> diff_entry) \<Rightarrow> tools" where
  "tools_of s dp = \<lparr>nvim = sy_nvim s, diffPromises = dp, settled = sy_settled s,
     resolve_calls = sy_resolve_calls s, next_promise = sy_next_promise s,
     logLevel = sy_logLevel s, out = sy_out s\<rparr>"

definition put_tools :: "tools \<Rightarrow> sys \<Rightarrow> sys" where
  "put_tools t s = s\<lparr>sy_nvim := nvim t, sy_settled := settled t,
     sy_resolve_calls := resolve_calls t, sy_next_promise := next_promise t,
     sy_out := out t\<rparr>"

definition sys_log :: "LogLevel \<Rightarrow> string \<Rightarrow> sys \<Rightarrow> sys" where
  "sys_log level message s =
     (if level_num level > level_num (sy_logLevel s) then s
      else s\<lparr>sy_out := sy_out s @ [(level, message)]\<rparr>)"

definition clearInterval :: "nat \<Rightarrow> sys \<Rightarrow> sys" where
  "clearInterval tm s =
     s\<lparr>timers := (case timers s tm of None \<Rightarrow> timers s
                   | Some hb \<Rightarrow> (timers s)(tm \<mapsto> hb\<lparr>hb_active := False\<rparr>)),
       events := events s @ [ClearInterval tm]\<rparr>"

text \<open>\<^verbatim>\<open>ws.close()\<close> starts the closing handshake of a socket that is not yet closing.\<close>

definition ws_close :: "nat \<Rightarrow> sys \<Rightarrow> sys" where
  "ws_close ws s =
     s\<lparr>sockets := (if readyState (sockets s ws) = OPEN \<or> readyState (sockets s ws) = CONNECTING
                    then (sockets s)(ws := (sockets s ws)\<lparr>readyState := CLOSING\<rparr>)
                    else sockets s),
       events := events s @ [WsClose ws]\<rparr>"

text \<open>\<^verbatim>\<open>Math.floor(Math.random() * (65535 - 10000 + 1)) + 10000\<close>, the random draw an input.\<close>

definition getRandomPort :: "nat \<Rightarrow> int" where
  "getRandomPort r = int (r mod 55536) + 10000"

text \<open>The constructor: \<^verbatim>\<open>port || this.getRandomPort()\<close>; no port, \<open>NaN\<close> and \<open>0\<close> are falsy.\<close>

definition new_manager :: "int option \<Rightarrow> nat \<Rightarrow> manager" where
  "new_manager p r =
     \<lparr>wss = None,
      port = (case p of None \<Rightarrow> getRandomPort r
              | Some n \<Rightarrow> if n = 0 then getRandomPort r else n),
      clientServers = [], changeHandlers = [], selectionTracking = Map.empty,
      lastSelectionBuffer = None, healthCheckIntervals = Map.empty\<rparr>"

text \<open>
  \<open>start\<close>, for a port that can be bound: a port that is in use is reported later, by an
  \<^verbatim>\<open>'error'\<close> event that is only logged.
\<close>

definition start ::
  "process_env \<Rightarrow> (nat \<Rightarrow> 8 word) \<Rightarrow> manager \<Rightarrow> sys \<Rightarrow> (error + unit) \<times> manager \<times> sys" where
  "start env rnd m s =
     (if wss m \<noteq> None then (Inl AlreadyRunning, m, s)
      else
        (let cwd = ed_cwd (sy_nvim s) in
         case createClaudeWebSocketServer env rnd
                \<lparr>cfg_port = port m, cfg_path = Some ''/'',
                 cfg_workspaceFolders = Some [cwd], cfg_ideName = Some ''neovim''\<rparr> (sy_fs s) of
           (Inl e, fs') \<Rightarrow> (Inl e, m, s\<lparr>sy_fs := fs'\<rparr>)
         | (Inr w, fs') \<Rightarrow>
             (let s1 = s\<lparr>sy_fs := fs'\<rparr>;
                  s2 = s1\<lparr>sy_nvim := (sy_nvim s1)\<lparr>ed_port_var := port m\<rparr>\<rparr>;
                  s3 = sys_log INFO (''Server started on port '' @ show_int (port m)) s2;
                  s4 = sys_log INFO (''Lock file: ~/.claude/ide/'' @ show_int (port m) @ ''.lock'') s3
              in (Inr (), m\<lparr>wss := Some w\<rparr>, s4))))"

text \<open>\<open>Map.set\<close> and \<open>Map.delete\<close> on a map kept in insertion order.\<close>

fun amap_set :: "'k \<Rightarrow> 'v \<Rightarrow> ('k \<times> 'v) list \<Rightarrow> ('k \<times> 'v) list" where
  "amap_set k v [] = [(k, v)]"
| "amap_set k v (p # ps) = (if fst p = k then (k, v) # ps else p # amap_set k v ps)"

definition amap_delete :: "'k \<Rightarrow> ('k \<times> 'v) list \<Rightarrow> ('k \<times> 'v) list" where
  "amap_delete k ps = filter (\<lambda>p. fst p \<noteq> k) ps"

text \<open>
  \<open>handleClient\<close>: a new tool set is registered and its handlers pushed; the transport
  starts on a socket that is open (or opens), and fails on one that is closing or
  closed; then the session is stored and its heartbeat set, with \<open>pingId = 0\<close>.
\<close>

definition handleClient :: "nat \<Rightarrow> manager \<Rightarrow> sys \<Rightarrow> manager \<times> sys" where
  "handleClient ws m s =
     (let mcpServer = length (changeHandlers m);
          m1 = m\<lparr>changeHandlers := changeHandlers m @ [Map.empty]\<rparr>
      in if readyState (sockets s ws) = OPEN \<or> readyState (sockets s ws) = CONNECTING
         then
           (let s1 = s\<lparr>sockets := (sockets s)(ws := (sockets s ws)\<lparr>readyState := OPEN\<rparr>)\<rparr>;
                s2 = sys_log INFO ''Client connected'' s1;
                m2 = m1\<lparr>clientServers := amap_set ws mcpServer (clientServers m1)\<rparr>;
                healthCheckInterval = next_timer s2;
                s3 = s2\<lparr>timers := (timers s2)(healthCheckInterval \<mapsto>
                                    \<lparr>hb_ws = ws, hb_pingId = 0, hb_active = True\<rparr>),
                        next_timer := healthCheckInterval + 1\<rparr>;
                m3 = m2\<lparr>healthCheckIntervals :=
                          (healthCheckIntervals m2)(ws \<mapsto> healthCheckInterval)\<rparr>
            in (m3, s3))
         else
           (m1, ws_close ws
                  (sys_log ERROR ''Error handling client: WebSocket is not in a valid state'' s)))"

text \<open>
  The listener handles an upgrade request that reached \<open>verifyClient\<close>: on \<open>callback(true)\<close>
  the handshake is completed and the \<^verbatim>\<open>'connection'\<close> event runs \<open>handleClient\<close> on the
  new, open socket; on \<open>callback(false, 401, 'Unauthorized')\<close> the handshake is aborted
  with that status and no \<^verbatim>\<open>'connection'\<close> event is emitted.
\<close>

definition on_upgrade :: "header_value \<Rightarrow> nat \<Rightarrow> manager \<Rightarrow> sys \<Rightarrow> verdict option \<times> manager \<times> sys" where
  "on_upgrade authHeader ws m s =
     (case wss m of
        None \<Rightarrow> (None, m, s)
      | Some w \<Rightarrow>
          (case verifyClient (wss_authToken w) authHeader of
             Accepted \<Rightarrow>
               (case handleClient ws m
                       (s\<lparr>sockets := (sockets s)(ws := \<lparr>readyState = OPEN, outbox = []\<rparr>)\<rparr>) of
                  (m', s') \<Rightarrow> (Some Accepted, m', s'))
           | Rejected code reason \<Rightarrow> (Some (Rejected code reason), m, s)))"

definition getClientCount :: "manager \<Rightarrow> nat" where
  "getClientCount m = length (clientServers m)"

definition isRunning :: "manager \<Rightarrow> bool" where
  "isRunning m = (wss m \<noteq> None)"

subsection \<open>Heartbeat\<close>

text \<open>
  What \<^verbatim>\<open>ws.send(data, callback)\<close> does with a probe: it is delivered, or the callback
  gets an error, or \<open>send\<close> itself throws. The transport decides; it is an input.
\<close>

datatype send_outcome = Delivered | CallbackError | Throws

text \<open>
  One firing of the interval \<open>tm\<close>. A cleared interval does not fire. \<open>pingId++\<close> is
  evaluated while the message is built, before \<open>send\<close>.
\<close>

definition health_check_tick :: "send_outcome \<Rightarrow> nat \<Rightarrow> sys \<Rightarrow> sys" where
  "health_check_tick outcome tm s =
     (case timers s tm of
        None \<Rightarrow> s
      | Some hb \<Rightarrow>
          if \<not> hb_active hb then s
          else
            (let ws = hb_ws hb in
             if readyState (sockets s ws) = OPEN then
               (let pingMessage = Ping (hb_pingId hb);
                    s1 = s\<lparr>timers := (timers s)(tm \<mapsto> hb\<lparr>hb_pingId := hb_pingId hb + 1\<rparr>)\<rparr>;
                    s2 = s1\<lparr>sockets := (sockets s1)(ws := (sockets s1 ws)
                                \<lparr>outbox := outbox (sockets s1 ws) @ [pingMessage]\<rparr>)\<rparr>
                in if outcome = Delivered then s2
                   else ws_close ws (clearInterval tm
                          (sys_log WARN ''Health check failed, closing connection'' s2)))
             else s))"

fun run_ticks :: "send_outcome list \<Rightarrow> nat \<Rightarrow> sys \<Rightarrow> sys" where
  "run_ticks [] tm s = s"
| "run_ticks (outcome # rest) tm s = run_ticks rest tm (health_check_tick outcome tm s)"

fun ping_ids :: "frame list \<Rightarrow> nat list" where
  "ping_ids [] = []"
| "ping_ids (Ping n # frs) = n # ping_ids frs"
| "ping_ids (_ # frs) = ping_ids frs"

text \<open>
  The \<^verbatim>\<open>'close'\<close> listener that \<open>handleClient\<close> puts on the socket. It runs when the socket
  has closed, writes its log line, and is suspended at that \<^verbatim>\<open>await\<close>. What is left of it
  looks the interval of the socket up, clears and forgets it if it finds one, and deletes
  the session.
\<close>

definition close_listener_rest :: "nat \<Rightarrow> manager \<Rightarrow> sys \<Rightarrow> manager \<times> sys" where
  "close_listener_rest ws m s =
     (case healthCheckIntervals m ws of
        Some interval \<Rightarrow>
          (m\<lparr>healthCheckIntervals := (healthCheckIntervals m)(ws := None),
             clientServers := amap_delete ws (clientServers m)\<rparr>,
           clearInterval interval s)
      | None \<Rightarrow> (m\<lparr>clientServers := amap_delete ws (clientServers m)\<rparr>, s))"

text \<open>The whole listener, when nothing else runs before it is resumed.\<close>

definition on_ws_close :: "nat \<Rightarrow> manager \<Rightarrow> sys \<Rightarrow> manager \<times> sys" where
  "on_ws_close ws m s =
     close_listener_rest ws m
       (sys_log INFO ''Client disconnected''
          (s\<lparr>sockets := (sockets s)(ws := (sockets s ws)\<lparr>readyState := CLOSED\<rparr>)\<rparr>))"

subsection \<open>stop\<close>

text \<open>
  While \<open>stop\<close> waits in \<^verbatim>\<open>await mcpServer.close()\<close>, listeners that are suspended may be
  resumed. Which ones, and in which turn of the loop, is decided by the event loop; it is
  an input: \<open>resumed ws\<close> lists the sockets whose listeners are resumed while \<open>stop\<close> waits
  for the MCP server of the socket \<open>ws\<close>. Only a listener that is suspended is resumed.
\<close>

fun resume_listeners :: "nat list \<Rightarrow> nat list \<Rightarrow> manager \<Rightarrow> sys \<Rightarrow> nat list \<times> manager \<times> sys" where
  "resume_listeners [] suspended m s = (suspended, m, s)"
| "resume_listeners (r # rs) suspended m s =
     (if r \<in> set suspended
      then (case close_listener_rest r m s of
              (m', s') \<Rightarrow> resume_listeners rs (removeAll r suspended) m' s')
      else resume_listeners rs suspended m s)"

text \<open>
  One turn of the loop over \<open>clientServers\<close>, up to the point where \<open>stop\<close> waits: clear
  the interval of the socket and close the MCP server, whose transport closes the socket;
  when the socket has closed, its \<^verbatim>\<open>'close'\<close> listener starts, writes its log line and is
  suspended.
\<close>

definition close_session :: "manager \<Rightarrow> nat \<times> nat \<Rightarrow> sys \<Rightarrow> sys" where
  "close_session m c s =
     (case c of (ws, mcpServer) \<Rightarrow>
      (let s1 = (case healthCheckIntervals m ws of
                   Some interval \<Rightarrow> clearInterval interval s
                 | None \<Rightarrow> s);
           s2 = s1\<lparr>sockets := (sockets s1)(ws := (sockets s1 ws)\<lparr>readyState := CLOSED\<rparr>),
                   events := events s1 @ [McpServerClose ws mcpServer]\<rparr>
       in sys_log INFO ''Client disconnected'' s2))"

text \<open>
  The whole turn, on the suspended listeners, the manager and the rest of the state:
  after \<open>close_session\<close> the listener of the socket is suspended too, listeners are resumed
  while \<open>stop\<close> waits, and then \<open>stop\<close> calls \<^verbatim>\<open>ws.close()\<close>.
\<close>

definition stop_turn ::
  "(nat \<Rightarrow> nat list) \<Rightarrow> nat \<times> nat \<Rightarrow> nat list \<times> manager \<times> sys \<Rightarrow> nat list \<times> manager \<times> sys" where
  "stop_turn resumed c st =
     (case st of (suspended, m, s) \<Rightarrow>
      case resume_listeners (resumed (fst c)) (suspended @ [fst c]) m (close_session m c s) of
        (suspended', m', s4) \<Rightarrow> (suspended', m', ws_close (fst c) s4))"

text \<open>
  \<open>stop\<close>, with \<^verbatim>\<open>mcpServer.close()\<close> and \<^verbatim>\<open>wss.close(callback)\<close> completing without an
  error; the \<^verbatim>\<open>'close'\<close> event of the server runs the listener that unlinks the lock file.
  No listener is suspended when \<open>stop\<close> starts, and no client closes its socket while
  \<open>stop\<close> runs: sockets are closed by \<open>stop\<close> only. So the loop visits the sessions that
  \<open>clientServers\<close> holds when it starts: a listener deletes only a session that the loop
  has visited. A listener that is still suspended when both maps are cleared finds no
  interval and no session, and changes nothing.
\<close>

definition stop ::
  "(nat \<Rightarrow> nat list) \<Rightarrow> manager \<Rightarrow> sys \<Rightarrow> (error + unit) \<times> manager \<times> sys" where
  "stop resumed m s =
     (case wss m of
        None \<Rightarrow> (Inl NotRunning, m, s)
      | Some w \<Rightarrow>
          (case fold (stop_turn resumed) (clientServers m) ([], m, s) of
             (suspended, m0, s1) \<Rightarrow>
               (let m1 = m0\<lparr>clientServers := [], healthCheckIntervals := Map.empty\<rparr>;
                    s2 = s1\<lparr>sy_fs := wss_on_close w (sy_fs s1),
                            events := events s1 @ [ServerClose]\<rparr>;
                    m2 = m1\<lparr>wss := None\<rparr>;
                    s3 = s2\<lparr>sy_nvim := (sy_nvim s2)\<lparr>ed_port_var := 0\<rparr>\<rparr>
                in (Inr (), m2, sys_log INFO ''Server stopped'' s3))))"

text \<open>An event that closes the session of the socket \<open>ws\<close>.\<close>

definition closes :: "nat \<Rightarrow> event \<Rightarrow> bool" where
  "closes ws e = (case e of McpServerClose w mcpServer \<Rightarrow> w = ws | WsClose w \<Rightarrow> w = ws | _ \<Rightarrow> False)"

text \<open>
  The number of probes that a run of ticks hands to an open socket: one for each send
  that is delivered, and one for the first send that fails, which ends the heartbeat.
\<close>

fun probes_sent :: "send_outcome list \<Rightarrow> nat" where
  "probes_sent [] = 0"
| "probes_sent (outcome # rest) = (if outcome = Delivered then Suc (probes_sent rest) else 1)"

text \<open>The interval \<open>tm\<close> is not set (any more).\<close>

definition cleared :: "sys \<Rightarrow> nat \<Rightarrow> bool" where
  "cleared s tm = (case timers s tm of None \<Rightarrow> True | Some hb \<Rightarrow> \<not> hb_active hb)"

subsection \<open>acceptChanges and dropChanges of the manager\<close>

text \<open>
  The loop over \<open>changeHandlers\<close>: the handlers already asked, those still to ask. The
  first handler that returns \<open>true\<close> ends the loop.
\<close>

fun accept_loop ::
  "string \<Rightarrow> (string \<rightharpoonup> diff_entry) list \<Rightarrow> (string \<rightharpoonup> diff_entry) list \<Rightarrow> sys
     \<Rightarrow> bool \<times> (string \<rightharpoonup> diff_entry) list \<times> sys" where
  "accept_loop changeId asked [] s = (False, asked, s)"
| "accept_loop changeId asked (dp # rest) s =
     (case acceptChanges changeId (tools_of s dp) of
        (r, t) \<Rightarrow>
          if r then (True, asked @ diffPromises t # rest, put_tools t s)
          else accept_loop changeId (asked @ [diffPromises t]) rest (put_tools t s))"

fun drop_loop ::
  "string \<Rightarrow> (string \<rightharpoonup> diff_entry) list \<Rightarrow> (string \<rightharpoonup> diff_entry) list \<Rightarrow> sys
     \<Rightarrow> bool \<times> (string \<rightharpoonup> diff_entry) list \<times> sys" where
  "drop_loop changeId asked [] s = (False, asked, s)"
| "drop_loop changeId asked (dp # rest) s =
     (case dropChanges changeId (tools_of s dp) of
        (r, t) \<Rightarrow>
          if r then (True, asked @ diffPromises t # rest, put_tools t s)
          else drop_loop changeId (asked @ [diffPromises t]) rest (put_tools t s))"

definition manager_acceptChanges :: "string \<Rightarrow> manager \<Rightarrow> sys \<Rightarrow> bool \<times> manager \<times> sys" where
  "manager_acceptChanges changeId m s =
     (case accept_loop changeId [] (changeHandlers m) s of
        (r, hs, s') \<Rightarrow> (r, m\<lparr>changeHandlers := hs\<rparr>, s'))"

definition manager_dropChanges :: "string \<Rightarrow> manager \<Rightarrow> sys \<Rightarrow> bool \<times> manager \<times> sys" where
  "manager_dropChanges changeId m s =
     (case drop_loop changeId [] (changeHandlers m) s of
        (r, hs, s') \<Rightarrow> (r, m\<lparr>changeHandlers := hs\<rparr>, s'))"

subsection \<open>Selection tracking\<close>

text \<open>\<^verbatim>\<open>s.substring(a, b)\<close> and \<^verbatim>\<open>s.substring(a)\<close>: indices are clamped to the string, and swapped when \<open>a > b\<close>.\<close>

definition clamp_index :: "int \<Rightarrow> string \<Rightarrow> nat" where
  "clamp_index i str = nat (max 0 (min i (int (length str))))"

definition substring :: "string \<Rightarrow> int \<Rightarrow> int \<Rightarrow> string" where
  "substring str a b =
     (let a' = clamp_index a str; b' = clamp_index b str
      in take (max a' b' - min a' b') (drop (min a' b') str))"

definition substring_from :: "string \<Rightarrow> int \<Rightarrow> string" where
  "substring_from str a = drop (clamp_index a str) str"

text \<open>\<^verbatim>\<open>getline(lnum, end)\<close> on the current buffer: the lines that exist in that range.\<close>

definition getline :: "int \<Rightarrow> int \<Rightarrow> editor \<Rightarrow> string list" where
  "getline lnum end ed =
     (case ed_buffers ed (ed_current ed) of
        None \<Rightarrow> []
      | Some buf \<Rightarrow>
          if end < lnum then []
          else take (nat (end - max 1 lnum + 1)) (drop (nat (max 1 lnum - 1)) (buf_lines buf)))"

definition isVisual :: "string \<Rightarrow> bool" where
  "isVisual md = (md = ''v'' \<or> md = ''V'' \<or> md = [CHR 0x16])"

text \<open>The \<open>params\<close> that \<open>sendSelectionChanged\<close> builds for a buffer named \<open>filePath\<close>.\<close>

definition selection_of :: "editor \<Rightarrow> string \<Rightarrow> selection_params" where
  "selection_of ed filePath =
     (if isVisual (ed_mode ed) then
        (let startPos = ed_vpos ed; endPos = ed_curpos ed;
             swap = (fst startPos > fst endPos \<or>
                     (fst startPos = fst endPos \<and> snd startPos > snd endPos));
             startLine = (if swap then fst endPos else fst startPos);
             startCol = (if swap then snd endPos else snd startPos);
             endLine = (if swap then fst startPos else fst endPos);
             endCol = (if swap then snd startPos else snd endPos);
             start = (startLine - 1, startCol - 1);
             end = (endLine - 1, endCol);
             isEmpty = (fst start = fst end \<and> snd start = snd end);
             ls = getline startLine endLine ed;
             text = (case ls of
                       [] \<Rightarrow> []
                     | [l] \<Rightarrow> substring l (startCol - 1) endCol
                     | l # rest \<Rightarrow>
                         substring_from l (startCol - 1) @ [CHR 0x0A] @
                         join_lines (butlast rest) @ [CHR 0x0A] @
                         substring (last rest) 0 endCol)
         in \<lparr>sel_text = text, sel_filePath = filePath, sel_fileUrl = ''file://'' @ filePath,
             sel_start = start, sel_end = end, sel_isEmpty = isEmpty\<rparr>)
      else
        (let cursorPos = ed_curpos ed;
             start = (fst cursorPos - 1, snd cursorPos - 1)
         in \<lparr>sel_text = [], sel_filePath = filePath, sel_fileUrl = ''file://'' @ filePath,
             sel_start = start, sel_end = start, sel_isEmpty = True\<rparr>))"

text \<open>The \<open>params\<close> that \<open>sendEmptySelection\<close> builds.\<close>

definition empty_selection_of :: "editor \<Rightarrow> string \<Rightarrow> selection_params" where
  "empty_selection_of ed filePath =
     (let cursorPos = ed_curpos ed;
          start = (fst cursorPos - 1, snd cursorPos - 1)
      in \<lparr>sel_text = [], sel_filePath = filePath, sel_fileUrl = ''file://'' @ filePath,
          sel_start = start, sel_end = start, sel_isEmpty = True\<rparr>)"

text \<open>\<^verbatim>\<open>for (const ws of this.clientServers.keys()) if (ws.readyState === ws.OPEN) ws.send(str)\<close>\<close>

definition send_if_open :: "frame \<Rightarrow> nat \<Rightarrow> (nat \<Rightarrow> socket) \<Rightarrow> (nat \<Rightarrow> socket)" where
  "send_if_open fr ws socks =
     (if readyState (socks ws) = OPEN
      then socks(ws := (socks ws)\<lparr>outbox := outbox (socks ws) @ [fr]\<rparr>)
      else socks)"

definition broadcast :: "frame \<Rightarrow> manager \<Rightarrow> sys \<Rightarrow> sys" where
  "broadcast fr m s = s\<lparr>sockets := fold (send_if_open fr) (map fst (clientServers m)) (sockets s)\<rparr>"

definition sendSelectionChanged :: "int \<Rightarrow> manager \<Rightarrow> sys \<Rightarrow> manager \<times> sys" where
  "sendSelectionChanged bufnr m s =
     (if wss m = None then (m, s)
      else case ed_buffers (sy_nvim s) bufnr of
             None \<Rightarrow> (m, s)
           | Some buffer \<Rightarrow>
               (let filePath = buf_name buffer in
                if filePath = [] then (m, s)
                else
                  (let notification = Selection_changed (selection_of (sy_nvim s) filePath);
                       s1 = sys_log DEBUG ''Selection changed'' s;
                       s2 = broadcast notification m s1
                   in (m\<lparr>lastSelectionBuffer := Some bufnr\<rparr>, s2))))"

definition sendEmptySelection :: "int \<Rightarrow> manager \<Rightarrow> sys \<Rightarrow> sys" where
  "sendEmptySelection bufnr m s =
     (if wss m = None then s
      else case ed_buffers (sy_nvim s) bufnr of
             None \<Rightarrow> s
           | Some buffer \<Rightarrow>
               (let filePath = buf_name buffer in
                if filePath = [] then s
                else
                  (let notification = Selection_changed (empty_selection_of (sy_nvim s) filePath);
                       s1 = sys_log DEBUG ''Selection changed'' s
                   in broadcast notification m s1)))"

definition startSelectionTracking :: "int \<Rightarrow> manager \<Rightarrow> sys \<Rightarrow> manager \<times> sys" where
  "startSelectionTracking bufnr m s =
     (if selectionTracking m bufnr \<noteq> None then (m, s)
      else (m\<lparr>selectionTracking := (selectionTracking m)(bufnr \<mapsto> 1)\<rparr>,
            sys_log INFO (''Started selection tracking for buffer '' @ show_int bufnr) s))"

definition stopSelectionTracking :: "int \<Rightarrow> manager \<Rightarrow> sys \<Rightarrow> manager \<times> sys" where
  "stopSelectionTracking bufnr m s =
     (if selectionTracking m bufnr = None then (m, s)
      else
        (let m1 = m\<lparr>selectionTracking := (selectionTracking m)(bufnr := None)\<rparr>;
             r = (if lastSelectionBuffer m1 = Some bufnr
                  then (m1\<lparr>lastSelectionBuffer := None\<rparr>, sendEmptySelection bufnr m1 s)
                  else (m1, s))
         in (fst r,
             sys_log INFO (''Stopped selection tracking for buffer '' @ show_int bufnr) (snd r))))"

definition handleSelectionUpdate :: "int \<Rightarrow> manager \<Rightarrow> sys \<Rightarrow> manager \<times> sys" where
  "handleSelectionUpdate bufnr m s =
     (if selectionTracking m bufnr = None then (m, s) else sendSelectionChanged bufnr m s)"

subsection \<open>The BufWipeout autocmd\<close>

text \<open>
  The global \<open>serverManager\<close> is \<open>None\<close> while it is \<^verbatim>\<open>null\<close>. The handler gets the number
  of the wiped buffer as text, drops the diff under \<^verbatim>\<open>`${pid}/${bufnr}`\<close> and stops the
  selection tracking of the buffer. (\<open>NaN\<close> is a key of \<open>selectionTracking\<close> in no state of
  this model, so stopping the tracking of \<open>NaN\<close> does nothing.)
\<close>

definition on_BufWipeout :: "string \<Rightarrow> manager option \<Rightarrow> sys \<Rightarrow> manager option \<times> sys" where
  "on_BufWipeout bufnrStr serverManager s =
     (case serverManager of
        None \<Rightarrow> (None, s)
      | Some m \<Rightarrow>
          if \<not> isRunning m then (Some m, s)
          else
            (let bufnr = parseInt bufnrStr;
                 pid = ed_pid (sy_nvim s);
                 changeId = show_int pid @ ''/'' @ show_bufnr bufnr
             in case manager_dropChanges changeId m s of
                  (r, m1, s1) \<Rightarrow>
                    (case bufnr of
                       None \<Rightarrow> (Some m1, s1)
                     | Some b \<Rightarrow>
                         (case stopSelectionTracking b m1 s1 of
                            (m2, s2) \<Rightarrow> (Some m2, s2)))))"

text \<open>
  A decimal digit as \<open>show_nat\<close> prints it: a digit of base 10 that is no white space, no
  sign, no separator of a key and no part of the prefix \<open>0x\<close>.
\<close>

definition is_dec :: "char \<Rightarrow> bool" where
  "is_dec c = (digit_of c < 10 \<and> \<not> is_ws c \<and> c \<noteq> CHR ''-'' \<and> c \<noteq> CHR ''+'' \<and> c \<noteq> CHR ''/''
     \<and> c \<noteq> CHR ''x'' \<and> c \<noteq> CHR ''X'')"

section \<open>Example states\<close>

text \<open>
  Neovim with process id 4242 and one buffer, number 3, that shows a proposed edit of
  \<open>/a.txt\<close> under the name \<open>tab1\<close>; the diff is pending under the key \<open>4242/3\<close> and its
  promise is number 0.
\<close>

definition ex_buffer :: buffer where
  "ex_buffer = \<lparr>buf_lines = [''hello'', []], buf_modified = True, buf_name = ''tab1'',
                 buf_options = Map.empty\<rparr>"

definition ex_editor :: editor where
  "ex_editor = \<lparr>ed_buffers = [3 \<mapsto> ex_buffer], ed_last_bufnr = 3, ed_pid = 4242,
                 ed_current = 3, ed_mode = ''n'', ed_vpos = (1, 1), ed_curpos = (1, 1),
                 ed_cwd = ''/work'', ed_port_var = 0\<rparr>"

definition ex_entry :: diff_entry where
  "ex_entry = \<lparr>de_promise = 0, de_filePath = ''/a.txt'', de_bufnr = 3\<rparr>"

definition ex_tools :: tools where
  "ex_tools = \<lparr>nvim = ex_editor, diffPromises = [''4242/3'' \<mapsto> ex_entry],
                settled = Map.empty, resolve_calls = [], next_promise = 1,
                logLevel = INFO, out = []\<rparr>"

text \<open>The same, after buffer 3 has been wiped out.\<close>

definition ex_tools_wiped :: tools where
  "ex_tools_wiped = ex_tools\<lparr>nvim := ex_editor\<lparr>ed_buffers := Map.empty\<rparr>\<rparr>"

text \<open>An editor side on which every Ex command succeeds and no name matches a buffer.\<close>

definition ex_host :: host where
  "ex_host = \<lparr>ex_command = (\<lambda>c ed. Inr ed), fn_bufnr = (\<lambda>ed n. - 1), fn_exists = (\<lambda>ed e. 0)\<rparr>"


text \<open>
  A running manager with one client (socket 0, MCP server 0, interval 0) whose tool set
  holds the pending diff of \<open>ex_tools\<close>, and with selection tracking on for buffer 3.
\<close>

definition ex_env :: process_env where
  "ex_env = \<lparr>proc_pid = 777, proc_cwd = ''/work'', proc_home = ''/home/u''\<rparr>"

definition ex_wss :: wss where
  "ex_wss = \<lparr>wss_host = ''127.0.0.1'', wss_port = 45678, wss_path = ''/'',
             wss_authToken = randomUUID (\<lambda>i. 0),
             wss_lockFilePath = ''/home/u/.claude/ide/45678.lock''\<rparr>"

definition ex_manager :: manager where
  "ex_manager = \<lparr>wss = Some ex_wss, port = 45678, clientServers = [(0, 0)],
                  changeHandlers = [[''4242/3'' \<mapsto> ex_entry]],
                  selectionTracking = [3 \<mapsto> 1], lastSelectionBuffer = None,
                  healthCheckIntervals = [0 \<mapsto> 0]\<rparr>"

definition ex_sys :: sys where
  "ex_sys = \<lparr>sy_nvim = ex_editor, sy_settled = Map.empty, sy_resolve_calls = [],
              sy_next_promise = 1, sy_logLevel = INFO, sy_out = [],
              sockets = (\<lambda>ws. \<lparr>readyState = CLOSED, outbox = []\<rparr>)
                          (0 := \<lparr>readyState = OPEN, outbox = []\<rparr>),
              timers = [0 \<mapsto> \<lparr>hb_ws = 0, hb_pingId = 0, hb_active = True\<rparr>],
              next_timer = 1,
              sy_fs = \<lparr>dirs = {''/home/u/.claude'', ''/home/u/.claude/ide''},
                       files = [''/home/u/.claude/ide/45678.lock'' \<mapsto> JObj []]\<rparr>,
              events = []\<rparr>"

text \<open>The same, after buffer 3 has been wiped out.\<close>

definition ex_sys_wiped :: sys where
  "ex_sys_wiped = ex_sys\<lparr>sy_nvim := ex_editor\<lparr>ed_buffers := Map.empty\<rparr>\<rparr>"


definition ex_hb :: heartbeat where
  "ex_hb = \<lparr>hb_ws = 0, hb_pingId = 0, hb_active = True\<rparr>"


text \<open>
  The example manager after one cursor movement in buffer 3, in normal mode:
  \<open>handleSelectionUpdate\<close> has sent the cursor position as an empty selection.
\<close>

definition ex_after_move :: "manager \<times> sys" where
  "ex_after_move = handleSelectionUpdate 3 ex_manager ex_sys"

definition ex_cursor_selection :: selection_params where
  "ex_cursor_selection = \<lparr>sel_text = [], sel_filePath = ''tab1'', sel_fileUrl = ''file://tab1'',
     sel_start = (0, 0), sel_end = (0, 0), sel_isEmpty = True\<rparr>"


text \<open>The example manager with a second client: socket 1, MCP server 1, interval 1.\<close>

definition ex_manager2 :: manager where
  "ex_manager2 = ex_manager\<lparr>clientServers := [(0, 0), (1, 1)],
                            changeHandlers := [[''4242/3'' \<mapsto> ex_entry], Map.empty],
                            healthCheckIntervals := [0 \<mapsto> 0, 1 \<mapsto> 1]\<rparr>"

definition ex_sys2 :: sys where
  "ex_sys2 = ex_sys\<lparr>sockets := (sockets ex_sys)(1 := \<lparr>readyState = OPEN, outbox = []\<rparr>),
                    timers := (timers ex_sys)(1 \<mapsto> \<lparr>hb_ws = 1, hb_pingId = 0, hb_active = True\<rparr>),
                    next_timer := 2\<rparr>"


text \<open>
  The example state when a second client, on socket 1, has just been admitted: the socket
  is open and nothing has been sent on it.
\<close>

definition ex_sys_incoming :: sys where
  "ex_sys_incoming = ex_sys\<lparr>sockets := (sockets ex_sys)(1 := \<lparr>readyState = OPEN, outbox = []\<rparr>)\<rparr>"

text \<open>
  Two ways for the \<^verbatim>\<open>'close'\<close> listeners to run while \<open>stop\<close> is at work: none of them resumes
  before \<open>stop\<close> has cleared the maps; or the listener of socket 0 resumes while \<open>stop\<close>
  waits for the MCP server of socket 1.
\<close>

definition ex_none_resumed :: "nat \<Rightarrow> nat list" where
  "ex_none_resumed ws = []"

definition ex_resumed :: "nat \<Rightarrow> nat list" where
  "ex_resumed ws = (if ws = 1 then [0] else [])"


text \<open>The state after that cursor movement, once buffer 3 has been wiped out.\<close>

definition ex_after_move_wiped :: sys where
  "ex_after_move_wiped = (snd ex_after_move)\<lparr>sy_nvim := ex_editor\<lparr>ed_buffers := Map.empty\<rparr>\<rparr>"


section \<open>Properties\<close>

lemma length_hex_bytes: "length (hex_bytes bs) = 2 * length bs"
  by (induction bs) (simp_all add: hex_bytes_def hex_byte_def)

lemma length_uuid_bytes: "length (uuid_bytes rnd) = 16"
  by (simp add: uuid_bytes_def)

lemma length_randomUUID: "length (randomUUID rnd) = 36"
  by (simp add: randomUUID_def Let_def length_hex_bytes length_uuid_bytes)


subsection \<open>Keys are parsed back to the buffer number they were built from\<close>

lemma digit_char_dec: "d < 10 \<Longrightarrow> is_dec (digit_char d) \<and> digit_of (digit_char d) = d"
proof -
  assume "d < 10"
  then have "d \<in> {0, 1, 2, 3, 4, 5, 6, 7, 8, 9}" by auto
  then show ?thesis
    by (auto simp: is_dec_def digit_char_def digit_of_def is_ws_def)
qed

lemma show_nat_dec: "show_nat n \<noteq> [] \<and> list_all is_dec (show_nat n)"
proof (induction n rule: show_nat.induct)
  case (1 n)
  show ?case
  proof (cases "n < 10")
    case True
    then show ?thesis
      by (subst show_nat.simps, subst (2) show_nat.simps) (simp add: digit_char_dec)
  next
    case False
    with 1 show ?thesis
      by (subst show_nat.simps, subst (2) show_nat.simps) (simp add: digit_char_dec)
  qed
qed

lemma digits_value_snoc: "digits_value r (ds @ [c]) = digits_value r ds * r + digit_of c"
  by (simp add: digits_value_def)

lemma digits_value_show_nat: "digits_value 10 (show_nat n) = n"
proof (induction n rule: show_nat.induct)
  case (1 n)
  show ?case
  proof (cases "n < 10")
    case True
    then show ?thesis by (subst show_nat.simps) (simp add: digits_value_def digit_char_dec)
  next
    case False
    with 1 show ?thesis
      by (subst show_nat.simps) (simp add: digits_value_snoc digit_char_dec)
  qed
qed

lemma takeWhile_dec: "list_all is_dec s \<Longrightarrow> takeWhile (\<lambda>c. digit_of c < 10) s = s"
  by (induction s) (auto simp: is_dec_def)

lemma parse_unsigned_show_nat:
  "parse_unsigned neg (show_nat n) = Some ((if neg then - 1 else 1) * int n)"
proof -
  have d: "show_nat n \<noteq> []" "list_all is_dec (show_nat n)"
    using show_nat_dec by auto
  have nx: "take 2 (show_nat n) \<noteq> ''0x'' \<and> take 2 (show_nat n) \<noteq> ''0X''"
  proof (cases "show_nat n")
    case Nil
    then show ?thesis by simp
  next
    case (Cons a r)
    then show ?thesis using d(2) by (cases r) (auto simp: is_dec_def)
  qed
  show ?thesis using d nx
    by (simp add: parse_unsigned_def parse_radix_def takeWhile_dec digits_value_show_nat)
qed

lemma parseInt_show_int: "parseInt (show_int i) = Some i"
proof (cases "i < 0")
  case True
  then show ?thesis
    by (simp add: show_int_def parseInt_def is_ws_def parse_unsigned_show_nat)
next
  case False
  obtain c r where cr: "show_nat (nat i) = c # r"
    using show_nat_dec [of "nat i"] by (cases "show_nat (nat i)") auto
  then have c: "is_dec c" using show_nat_dec [of "nat i"] by simp
  have "parseInt (show_nat (nat i)) = parse_unsigned False (show_nat (nat i))"
    using c by (simp add: cr parseInt_def is_dec_def)
  with False show ?thesis by (simp add: show_int_def parse_unsigned_show_nat)
qed

lemma show_int_inject: "show_int i = show_int j \<Longrightarrow> i = j"
proof -
  assume "show_int i = show_int j"
  then have "parseInt (show_int i) = parseInt (show_int j)" by simp
  then show "i = j" by (simp add: parseInt_show_int)
qed

lemma no_slash_show_int: "CHR ''/'' \<notin> set (show_int i)"
  using show_nat_dec [of "nat i"] show_nat_dec [of "nat (- i)"]
  by (auto simp: show_int_def list_all_iff is_dec_def)

lemma split_on_no_sep: "sep \<notin> set s \<Longrightarrow> split_on sep s = [s]"
  by (induction s) auto

lemma split_on_append: "sep \<notin> set a \<Longrightarrow> split_on sep (a @ sep # b) = a # split_on sep b"
  by (induction a) auto

lemma changeId_bufnr_mk: "changeId_bufnr (mk_changeId p b) = Some b"
  by (simp add: changeId_bufnr_def mk_changeId_def split_on_append split_on_no_sep
      no_slash_show_int parseInt_show_int)

subsection \<open>What one uninterrupted acceptChanges or dropChanges does\<close>

lemma log_write_fields [simp]:
  "nvim (log_write l msg t) = nvim t"
  "diffPromises (log_write l msg t) = diffPromises t"
  "settled (log_write l msg t) = settled t"
  "resolve_calls (log_write l msg t) = resolve_calls t"
  "next_promise (log_write l msg t) = next_promise t"
  "logLevel (log_write l msg t) = logLevel t"
  by (simp_all add: log_write_def)

lemma resolve_fields [simp]:
  "nvim (resolve p v t) = nvim t"
  "diffPromises (resolve p v t) = diffPromises t"
  "resolve_calls (resolve p v t) = resolve_calls t @ [(p, v)]"
  "next_promise (resolve p v t) = next_promise t"
  "logLevel (resolve p v t) = logLevel t"
  "out (resolve p v t) = out t"
  "settled (resolve p v t) = (if settled t p = None then (settled t)(p \<mapsto> v) else settled t)"
  by (simp_all add: resolve_def)

lemma acceptChanges_absent:
  "diffPromises t k = None \<Longrightarrow> acceptChanges k t = (False, t)"
  by (simp add: acceptChanges_def)

lemma acceptChanges_no_buffer:
  "diffPromises t k = Some e \<Longrightarrow> find_buffer (nvim t) (changeId_bufnr k) = None \<Longrightarrow>
   acceptChanges k t =
     (False, log_write ERROR (''Buffer '' @ show_bufnr (changeId_bufnr k) @ '' not found'') t)"
  by (simp add: acceptChanges_def)

lemma acceptChanges_found:
  assumes "diffPromises t k = Some e" and "changeId_bufnr k = Some b"
    and "ed_buffers (nvim t) b = Some buf"
  shows "acceptChanges k t =
     (True, log_write INFO (''Accepted changes for '' @ de_filePath e)
       (resolve (de_promise e) (FILE_SAVED (join_lines (buf_lines buf)))
         (t\<lparr>nvim := (nvim t)\<lparr>ed_buffers :=
                        (ed_buffers (nvim t))(b \<mapsto> buf\<lparr>buf_modified := False\<rparr>)\<rparr>,
            diffPromises := (diffPromises t)(k := None)\<rparr>)))"
  using assms
  by (simp add: acceptChanges_def find_buffer_def buffer_lines_def set_modified_def)

lemma dropChanges_absent:
  "diffPromises t k = None \<Longrightarrow> dropChanges k t = (False, t)"
  by (simp add: dropChanges_def)

lemma dropChanges_no_buffer:
  "diffPromises t k = Some e \<Longrightarrow> find_buffer (nvim t) (changeId_bufnr k) = None \<Longrightarrow>
   dropChanges k t = (True, log_write INFO ''Rejected changes''
       (resolve (de_promise e) DIFF_REJECTED (t\<lparr>diffPromises := (diffPromises t)(k := None)\<rparr>)))"
  by (simp add: dropChanges_def)

lemma dropChanges_found:
  assumes "diffPromises t k = Some e" and "changeId_bufnr k = Some b"
    and "ed_buffers (nvim t) b = Some buf"
  shows "dropChanges k t = (True, log_write INFO ''Rejected changes''
       (resolve (de_promise e) DIFF_REJECTED
         (t\<lparr>nvim := (nvim t)\<lparr>ed_buffers :=
                        (ed_buffers (nvim t))(b \<mapsto> buf\<lparr>buf_modified := False\<rparr>)\<rparr>,
            diffPromises := (diffPromises t)(k := None)\<rparr>)))"
  using assms
  by (simp add: dropChanges_def find_buffer_def set_modified_def)

lemma find_buffer_cases:
  "find_buffer ed bo = None \<or>
   (\<exists>b buf. bo = Some b \<and> find_buffer ed bo = Some b \<and> ed_buffers ed b = Some buf)"
  by (auto simp: find_buffer_def split: option.splits)

text \<open>
  Run alone, the step machine returns within four (three) steps, with the result of the
  uninterrupted call.
\<close>

lemma accept_run_is_acceptChanges: "accept_run 4 k A_entry t = Some (acceptChanges k t)"
  by (simp add: eval_nat_numeral acceptChanges_def accept_catch_def Let_def
      split: option.splits sum.splits)

lemma drop_run_is_dropChanges: "drop_run 3 k D_entry t = Some (dropChanges k t)"
  by (simp add: eval_nat_numeral dropChanges_def drop_finish_def Let_def set_modified_def
      find_buffer_def split: option.splits sum.splits)

text \<open>
  Claim C9. For every correlation key with a pending record whose buffer no longer exists
  in the editor (the lookup \<^verbatim>\<open>buffers.find(buf => buf.id === bufnr)\<close> of the number parsed
  from the key finds nothing), \<open>acceptChanges\<close> returns \<open>false\<close> and leaves the correlation
  table unchanged: the record stays pending, no \<open>resolve\<close> function is called, no promise
  is settled, and the editor is not touched.
\<close>

theorem acceptChanges_buffer_gone:
  assumes "diffPromises t k = Some e" and "find_buffer (nvim t) (changeId_bufnr k) = None"
  shows "\<exists>t'. acceptChanges k t = (False, t') \<and> diffPromises t' = diffPromises t \<and>
              settled t' = settled t \<and> resolve_calls t' = resolve_calls t \<and> nvim t' = nvim t"
  using assms by (simp add: acceptChanges_no_buffer)

theorem acceptChanges_buffer_gone_witness:
  "diffPromises ex_tools_wiped ''4242/3'' = Some ex_entry \<and>
   find_buffer (nvim ex_tools_wiped) (changeId_bufnr ''4242/3'') = None \<and>
   (\<exists>t'. acceptChanges ''4242/3'' ex_tools_wiped = (False, t') \<and>
         diffPromises t' = diffPromises ex_tools_wiped \<and> settled t' = settled ex_tools_wiped \<and>
         resolve_calls t' = resolve_calls ex_tools_wiped \<and> nvim t' = nvim ex_tools_wiped)"
proof -
  have a: "diffPromises ex_tools_wiped ''4242/3'' = Some ex_entry"
    by (simp add: ex_tools_wiped_def ex_tools_def)
  have b: "find_buffer (nvim ex_tools_wiped) (changeId_bufnr ''4242/3'') = None"
    by (simp add: ex_tools_wiped_def ex_tools_def find_buffer_def split: option.splits)
  show ?thesis using a b acceptChanges_buffer_gone [OF a b] by blast
qed


subsection \<open>The manager reads and writes the shared state through its tool sets\<close>

lemma tools_of_fields [simp]:
  "nvim (tools_of s dp) = sy_nvim s" "diffPromises (tools_of s dp) = dp"
  "settled (tools_of s dp) = sy_settled s" "resolve_calls (tools_of s dp) = sy_resolve_calls s"
  "next_promise (tools_of s dp) = sy_next_promise s" "logLevel (tools_of s dp) = sy_logLevel s"
  "out (tools_of s dp) = sy_out s"
  by (simp_all add: tools_of_def)

lemma put_tools_fields [simp]:
  "sy_nvim (put_tools t s) = nvim t" "sy_settled (put_tools t s) = settled t"
  "sy_resolve_calls (put_tools t s) = resolve_calls t" "sy_next_promise (put_tools t s) = next_promise t"
  "sy_logLevel (put_tools t s) = sy_logLevel s" "sy_out (put_tools t s) = out t"
  "sockets (put_tools t s) = sockets s" "timers (put_tools t s) = timers s"
  "next_timer (put_tools t s) = next_timer s" "sy_fs (put_tools t s) = sy_fs s"
  "events (put_tools t s) = events s"
  by (simp_all add: put_tools_def)

lemma put_tools_of [simp]: "put_tools (tools_of s dp) s = s"
  by (simp add: put_tools_def tools_of_def)

lemma sys_log_fields [simp]:
  "sy_nvim (sys_log l msg s) = sy_nvim s" "sy_settled (sys_log l msg s) = sy_settled s"
  "sy_resolve_calls (sys_log l msg s) = sy_resolve_calls s"
  "sy_next_promise (sys_log l msg s) = sy_next_promise s"
  "sy_logLevel (sys_log l msg s) = sy_logLevel s"
  "sockets (sys_log l msg s) = sockets s" "timers (sys_log l msg s) = timers s"
  "next_timer (sys_log l msg s) = next_timer s" "sy_fs (sys_log l msg s) = sy_fs s"
  "events (sys_log l msg s) = events s"
  by (simp_all add: sys_log_def)

lemma broadcast_fields [simp]:
  "sy_nvim (broadcast fr m s) = sy_nvim s" "sy_settled (broadcast fr m s) = sy_settled s"
  "sy_resolve_calls (broadcast fr m s) = sy_resolve_calls s"
  "sy_next_promise (broadcast fr m s) = sy_next_promise s"
  "sy_logLevel (broadcast fr m s) = sy_logLevel s" "sy_out (broadcast fr m s) = sy_out s"
  "timers (broadcast fr m s) = timers s"
  "next_timer (broadcast fr m s) = next_timer s" "sy_fs (broadcast fr m s) = sy_fs s"
  "events (broadcast fr m s) = events s"
  by (simp_all add: broadcast_def)

lemma sendEmptySelection_frame [simp]:
  "sy_nvim (sendEmptySelection b m s) = sy_nvim s"
  "sy_settled (sendEmptySelection b m s) = sy_settled s"
  "sy_resolve_calls (sendEmptySelection b m s) = sy_resolve_calls s"
  "timers (sendEmptySelection b m s) = timers s"
  "sy_fs (sendEmptySelection b m s) = sy_fs s"
  "events (sendEmptySelection b m s) = events s"
  by (simp_all add: sendEmptySelection_def Let_def split: option.splits)

lemma stopSelectionTracking_frame:
  "stopSelectionTracking b m s = (m', s') \<Longrightarrow>
   changeHandlers m' = changeHandlers m \<and> wss m' = wss m \<and> clientServers m' = clientServers m \<and>
   healthCheckIntervals m' = healthCheckIntervals m \<and>
   sy_nvim s' = sy_nvim s \<and> sy_settled s' = sy_settled s \<and>
   sy_resolve_calls s' = sy_resolve_calls s \<and> timers s' = timers s \<and> sy_fs s' = sy_fs s"
  by (auto simp: stopSelectionTracking_def Let_def split: if_splits)

lemma drop_loop_skip:
  "\<forall>h \<in> set hs1. h k = None \<Longrightarrow>
   drop_loop k asked (hs1 @ rest) s = drop_loop k (asked @ hs1) rest s"
  by (induction hs1 arbitrary: asked) (simp_all add: dropChanges_absent)

lemma accept_loop_skip:
  "\<forall>h \<in> set hs1. h k = None \<Longrightarrow>
   accept_loop k asked (hs1 @ rest) s = accept_loop k (asked @ hs1) rest s"
  by (induction hs1 arbitrary: asked) (simp_all add: acceptChanges_absent)

lemma dropChanges_shape:
  assumes "diffPromises t k = Some e"
  shows "\<exists>ed. dropChanges k t = (True, log_write INFO ''Rejected changes''
       (resolve (de_promise e) DIFF_REJECTED (t\<lparr>nvim := ed, diffPromises := (diffPromises t)(k := None)\<rparr>)))
       \<and> (find_buffer (nvim t) (changeId_bufnr k) = None \<longrightarrow> ed = nvim t)"
  using assms find_buffer_cases [of "nvim t" "changeId_bufnr k"]
  by (auto simp: dropChanges_no_buffer dropChanges_found)

lemma manager_dropChanges_first:
  assumes hs: "changeHandlers m = hs1 @ dp # hs2" and skip: "\<forall>h \<in> set hs1. h k = None"
    and pend: "dp k = Some e"
  shows "\<exists>m' s'. manager_dropChanges k m s = (True, m', s') \<and>
           changeHandlers m' = hs1 @ dp(k := None) # hs2 \<and>
           wss m' = wss m \<and> selectionTracking m' = selectionTracking m \<and>
           lastSelectionBuffer m' = lastSelectionBuffer m \<and>
           sy_resolve_calls s' = sy_resolve_calls s @ [(de_promise e, DIFF_REJECTED)] \<and>
           (sy_settled s (de_promise e) = None \<longrightarrow> sy_settled s' (de_promise e) = Some DIFF_REJECTED) \<and>
           (find_buffer (sy_nvim s) (changeId_bufnr k) = None \<longrightarrow> sy_nvim s' = sy_nvim s)"
proof -
  obtain ed where d: "dropChanges k (tools_of s dp) = (True, log_write INFO ''Rejected changes''
       (resolve (de_promise e) DIFF_REJECTED ((tools_of s dp)\<lparr>nvim := ed, diffPromises := dp(k := None)\<rparr>)))"
     and ed: "find_buffer (sy_nvim s) (changeId_bufnr k) = None \<longrightarrow> ed = sy_nvim s"
    using dropChanges_shape [of "tools_of s dp" k e] pend by auto
  show ?thesis using ed
    by (simp add: manager_dropChanges_def hs drop_loop_skip [OF skip] d)
qed

lemma ex_key: "mk_changeId 4242 3 = ''4242/3''"
  by (simp add: mk_changeId_def show_int_def show_nat.simps digit_char_def)

lemma ex_bufnr_text: "show_int 3 = ''3''"
  by (simp add: show_int_def show_nat.simps digit_char_def)

lemma ex_key_bufnr: "changeId_bufnr ''4242/3'' = Some 3"
  using changeId_bufnr_mk [of 4242 3] by (simp add: ex_key)

text \<open>
  Claim C10. For every correlation key with a pending record, \<open>dropChanges\<close> returns
  \<open>true\<close>, removes the record and calls the record's \<open>resolve\<close> with the \<open>DIFF_REJECTED\<close>
  payload (which settles the promise if it was not settled), also when the buffer of the
  key no longer exists: then only the clearing of the \<open>modified\<close> flag is skipped and the
  editor is left as it is. So the BufWipeout autocmd of a running server, called with the
  number of a wiped buffer, resolves the pending diff of that buffer in the first tool
  set that holds it.
\<close>

theorem dropChanges_pending:
  "(diffPromises t k = Some e \<longrightarrow>
      (\<exists>t'. dropChanges k t = (True, t') \<and>
            diffPromises t' = (diffPromises t)(k := None) \<and>
            resolve_calls t' = resolve_calls t @ [(de_promise e, DIFF_REJECTED)] \<and>
            (settled t (de_promise e) = None \<longrightarrow> settled t' (de_promise e) = Some DIFF_REJECTED) \<and>
            (find_buffer (nvim t) (changeId_bufnr k) = None \<longrightarrow> nvim t' = nvim t))) \<and>
   (isRunning m \<and> changeHandlers m = hs1 @ dp # hs2 \<and>
      (\<forall>h \<in> set hs1. h (mk_changeId (ed_pid (sy_nvim s)) b) = None) \<and>
      dp (mk_changeId (ed_pid (sy_nvim s)) b) = Some e' \<and> ed_buffers (sy_nvim s) b = None \<longrightarrow>
      (\<exists>m' s'. on_BufWipeout (show_int b) (Some m) s = (Some m', s') \<and>
         changeHandlers m' = hs1 @ dp(mk_changeId (ed_pid (sy_nvim s)) b := None) # hs2 \<and>
         sy_resolve_calls s' = sy_resolve_calls s @ [(de_promise e', DIFF_REJECTED)] \<and>
         (sy_settled s (de_promise e') = None \<longrightarrow>
            sy_settled s' (de_promise e') = Some DIFF_REJECTED)))"
proof (intro conjI impI)
  assume p: "diffPromises t k = Some e"
  from dropChanges_shape [OF p]
  obtain ed where d: "dropChanges k t = (True, log_write INFO ''Rejected changes''
       (resolve (de_promise e) DIFF_REJECTED
          (t\<lparr>nvim := ed, diffPromises := (diffPromises t)(k := None)\<rparr>)))
       \<and> (find_buffer (nvim t) (changeId_bufnr k) = None \<longrightarrow> ed = nvim t)" ..
  show "\<exists>t'. dropChanges k t = (True, t') \<and>
            diffPromises t' = (diffPromises t)(k := None) \<and>
            resolve_calls t' = resolve_calls t @ [(de_promise e, DIFF_REJECTED)] \<and>
            (settled t (de_promise e) = None \<longrightarrow> settled t' (de_promise e) = Some DIFF_REJECTED) \<and>
            (find_buffer (nvim t) (changeId_bufnr k) = None \<longrightarrow> nvim t' = nvim t)"
    using d by simp
next
  let ?k = "mk_changeId (ed_pid (sy_nvim s)) b"
  assume a: "isRunning m \<and> changeHandlers m = hs1 @ dp # hs2 \<and>
      (\<forall>h \<in> set hs1. h ?k = None) \<and> dp ?k = Some e' \<and> ed_buffers (sy_nvim s) b = None"
  then have a1: "changeHandlers m = hs1 @ dp # hs2" and a2: "\<forall>h \<in> set hs1. h ?k = None"
    and a3: "dp ?k = Some e'" and a0: "isRunning m"
    by simp_all
  from manager_dropChanges_first [OF a1 a2 a3, of s]
  obtain m1 where "\<exists>s'. manager_dropChanges ?k m s = (True, m1, s') \<and>
           changeHandlers m1 = hs1 @ dp(?k := None) # hs2 \<and>
           wss m1 = wss m \<and> selectionTracking m1 = selectionTracking m \<and>
           lastSelectionBuffer m1 = lastSelectionBuffer m \<and>
           sy_resolve_calls s' = sy_resolve_calls s @ [(de_promise e', DIFF_REJECTED)] \<and>
           (sy_settled s (de_promise e') = None \<longrightarrow> sy_settled s' (de_promise e') = Some DIFF_REJECTED) \<and>
           (find_buffer (sy_nvim s) (changeId_bufnr ?k) = None \<longrightarrow> sy_nvim s' = sy_nvim s)" ..
  then obtain s1 where d: "manager_dropChanges ?k m s = (True, m1, s1) \<and>
           changeHandlers m1 = hs1 @ dp(?k := None) # hs2 \<and>
           wss m1 = wss m \<and> selectionTracking m1 = selectionTracking m \<and>
           lastSelectionBuffer m1 = lastSelectionBuffer m \<and>
           sy_resolve_calls s1 = sy_resolve_calls s @ [(de_promise e', DIFF_REJECTED)] \<and>
           (sy_settled s (de_promise e') = None \<longrightarrow> sy_settled s1 (de_promise e') = Some DIFF_REJECTED) \<and>
           (find_buffer (sy_nvim s) (changeId_bufnr ?k) = None \<longrightarrow> sy_nvim s1 = sy_nvim s)" ..
  obtain m2 s2 where t: "stopSelectionTracking b m1 s1 = (m2, s2)"
    by (cases "stopSelectionTracking b m1 s1")
  have "on_BufWipeout (show_int b) (Some m) s = (Some m2, s2)"
    using a0 d t
    by (simp add: on_BufWipeout_def parseInt_show_int show_bufnr_def mk_changeId_def)
  then show "\<exists>m' s'. on_BufWipeout (show_int b) (Some m) s = (Some m', s') \<and>
         changeHandlers m' = hs1 @ dp(?k := None) # hs2 \<and>
         sy_resolve_calls s' = sy_resolve_calls s @ [(de_promise e', DIFF_REJECTED)] \<and>
         (sy_settled s (de_promise e') = None \<longrightarrow>
            sy_settled s' (de_promise e') = Some DIFF_REJECTED)"
    using stopSelectionTracking_frame [OF t] d by simp
qed

theorem dropChanges_pending_witness:
  "diffPromises ex_tools_wiped ''4242/3'' = Some ex_entry \<and>
   find_buffer (nvim ex_tools_wiped) (changeId_bufnr ''4242/3'') = None \<and>
   settled ex_tools_wiped 0 = None \<and>
   (\<exists>t'. dropChanges ''4242/3'' ex_tools_wiped = (True, t') \<and>
         diffPromises t' ''4242/3'' = None \<and> resolve_calls t' = [(0, DIFF_REJECTED)] \<and>
         settled t' 0 = Some DIFF_REJECTED \<and> nvim t' = nvim ex_tools_wiped) \<and>
   isRunning ex_manager \<and> changeHandlers ex_manager = [] @ [''4242/3'' \<mapsto> ex_entry] # [] \<and>
   ed_buffers (sy_nvim ex_sys_wiped) 3 = None \<and>
   (\<exists>m' s'. on_BufWipeout ''3'' (Some ex_manager) ex_sys_wiped = (Some m', s') \<and>
         changeHandlers m' = [Map.empty] \<and> sy_resolve_calls s' = [(0, DIFF_REJECTED)] \<and>
         sy_settled s' 0 = Some DIFF_REJECTED)"
proof -
  have a: "diffPromises ex_tools_wiped ''4242/3'' = Some ex_entry"
    by (simp add: ex_tools_wiped_def ex_tools_def)
  have b: "find_buffer (nvim ex_tools_wiped) (changeId_bufnr ''4242/3'') = None"
    by (simp add: ex_tools_wiped_def ex_tools_def find_buffer_def split: option.splits)
  have c: "settled ex_tools_wiped 0 = None" "de_promise ex_entry = 0"
    "resolve_calls ex_tools_wiped = []"
    by (simp_all add: ex_tools_wiped_def ex_tools_def ex_entry_def)
  have r: "isRunning ex_manager" "changeHandlers ex_manager = [] @ [''4242/3'' \<mapsto> ex_entry] # []"
    by (simp_all add: isRunning_def ex_manager_def)
  have p: "ed_pid (sy_nvim ex_sys_wiped) = 4242" "ed_buffers (sy_nvim ex_sys_wiped) 3 = None"
    "sy_settled ex_sys_wiped 0 = None" "sy_resolve_calls ex_sys_wiped = []"
    by (simp_all add: ex_sys_wiped_def ex_sys_def ex_editor_def)
  note th = dropChanges_pending [of ex_tools_wiped "''4242/3''" ex_entry ex_manager "[]"
      "[''4242/3'' \<mapsto> ex_entry]" "[]" ex_sys_wiped 3 ex_entry]
  from th [THEN conjunct1, rule_format, OF a]
  obtain t' where 1: "dropChanges ''4242/3'' ex_tools_wiped = (True, t') \<and>
      diffPromises t' = (diffPromises ex_tools_wiped)(''4242/3'' := None) \<and>
      resolve_calls t' = resolve_calls ex_tools_wiped @ [(de_promise ex_entry, DIFF_REJECTED)] \<and>
      (settled ex_tools_wiped (de_promise ex_entry) = None \<longrightarrow>
         settled t' (de_promise ex_entry) = Some DIFF_REJECTED) \<and>
      (find_buffer (nvim ex_tools_wiped) (changeId_bufnr ''4242/3'') = None \<longrightarrow>
         nvim t' = nvim ex_tools_wiped)" ..
  have h: "isRunning ex_manager \<and> changeHandlers ex_manager = [] @ [''4242/3'' \<mapsto> ex_entry] # [] \<and>
      (\<forall>h \<in> set []. h (mk_changeId (ed_pid (sy_nvim ex_sys_wiped)) 3) = None) \<and>
      [''4242/3'' \<mapsto> ex_entry] (mk_changeId (ed_pid (sy_nvim ex_sys_wiped)) 3) = Some ex_entry \<and>
      ed_buffers (sy_nvim ex_sys_wiped) 3 = None"
    using r p by (simp add: ex_key)
  from th [THEN conjunct2, rule_format, OF h]
  obtain m' where "\<exists>s'. on_BufWipeout (show_int 3) (Some ex_manager) ex_sys_wiped = (Some m', s') \<and>
      changeHandlers m' =
         [] @ [''4242/3'' \<mapsto> ex_entry](mk_changeId (ed_pid (sy_nvim ex_sys_wiped)) 3 := None) # [] \<and>
      sy_resolve_calls s' = sy_resolve_calls ex_sys_wiped @ [(de_promise ex_entry, DIFF_REJECTED)] \<and>
      (sy_settled ex_sys_wiped (de_promise ex_entry) = None \<longrightarrow>
         sy_settled s' (de_promise ex_entry) = Some DIFF_REJECTED)" ..
  then obtain s' where 2: "on_BufWipeout (show_int 3) (Some ex_manager) ex_sys_wiped = (Some m', s') \<and>
      changeHandlers m' =
         [] @ [''4242/3'' \<mapsto> ex_entry](mk_changeId (ed_pid (sy_nvim ex_sys_wiped)) 3 := None) # [] \<and>
      sy_resolve_calls s' = sy_resolve_calls ex_sys_wiped @ [(de_promise ex_entry, DIFF_REJECTED)] \<and>
      (sy_settled ex_sys_wiped (de_promise ex_entry) = None \<longrightarrow>
         sy_settled s' (de_promise ex_entry) = Some DIFF_REJECTED)" ..
  have 3: "\<exists>t'. dropChanges ''4242/3'' ex_tools_wiped = (True, t') \<and>
         diffPromises t' ''4242/3'' = None \<and> resolve_calls t' = [(0, DIFF_REJECTED)] \<and>
         settled t' 0 = Some DIFF_REJECTED \<and> nvim t' = nvim ex_tools_wiped"
    using 1 b c by (intro exI [of _ t']) simp
  have 4: "\<exists>m' s'. on_BufWipeout ''3'' (Some ex_manager) ex_sys_wiped = (Some m', s') \<and>
         changeHandlers m' = [Map.empty] \<and> sy_resolve_calls s' = [(0, DIFF_REJECTED)] \<and>
         sy_settled s' 0 = Some DIFF_REJECTED"
    using 2 p c by (intro exI [of _ m'] exI [of _ s']) (simp add: ex_key ex_bufnr_text)
  show ?thesis by (intro conjI) (fact a b c(1) 3 r p(2) 4)+
qed


subsection \<open>Resolving a pending diff\<close>

text \<open>
  Calls that do not overlap: a call that returns \<open>true\<close> has removed the key, and on a
  table without the key both handlers return \<open>false\<close> and change nothing.
\<close>

lemma success_removes_key:
  "(fst (acceptChanges k t) \<longrightarrow> diffPromises (snd (acceptChanges k t)) k = None) \<and>
   (fst (dropChanges k t) \<longrightarrow> diffPromises (snd (dropChanges k t)) k = None)"
  by (simp add: acceptChanges_def dropChanges_def Let_def split: option.splits sum.splits)

lemma removed_key_not_found:
  "diffPromises t k = None \<Longrightarrow>
   acceptChanges k t = (False, t) \<and> dropChanges k t = (False, t)"
  by (simp add: acceptChanges_absent dropChanges_absent)

text \<open>
  Claim C3, as stated, says that \<open>acceptChanges\<close> succeeds whenever a record is pending
  under the key. It does not when the buffer of the key is gone: the guard
  \<^verbatim>\<open>if (!buffer)\<close> returns \<open>false\<close> and the record stays pending.
\<close>

theorem acceptChanges_true_on_every_pending_counterexample:
  "diffPromises ex_tools_wiped ''4242/3'' = Some ex_entry \<and>
   fst (acceptChanges ''4242/3'' ex_tools_wiped) = False \<and>
   diffPromises (snd (acceptChanges ''4242/3'' ex_tools_wiped)) ''4242/3'' = Some ex_entry \<and>
   resolve_calls (snd (acceptChanges ''4242/3'' ex_tools_wiped)) = [] \<and>
   settled (snd (acceptChanges ''4242/3'' ex_tools_wiped)) 0 = None"
proof -
  have a: "diffPromises ex_tools_wiped ''4242/3'' = Some ex_entry"
    by (simp add: ex_tools_wiped_def ex_tools_def)
  have b: "find_buffer (nvim ex_tools_wiped) (changeId_bufnr ''4242/3'') = None"
    by (simp add: ex_tools_wiped_def ex_tools_def find_buffer_def split: option.splits)
  have c: "resolve_calls ex_tools_wiped = []" "settled ex_tools_wiped 0 = None"
    by (simp_all add: ex_tools_wiped_def ex_tools_def)
  show ?thesis using a c by (simp add: acceptChanges_no_buffer [OF a b])
qed

text \<open>
  Claim C3, amended. If no record is pending under the key, \<open>acceptChanges\<close> returns
  \<open>false\<close> and changes nothing. If a record is pending and the buffer whose number the key
  carries still exists, \<open>acceptChanges\<close> returns \<open>true\<close>, clears the \<open>modified\<close> flag of that
  buffer, removes the record, and calls the record's \<open>resolve\<close> with \<open>FILE_SAVED\<close> and the
  lines of the buffer at that time joined by newlines (which settles the promise if it
  was not settled); a second \<open>acceptChanges\<close> with the key then returns \<open>false\<close>.
\<close>

theorem acceptChanges_pending_buffer_present:
  "(diffPromises t k = None \<longrightarrow> acceptChanges k t = (False, t)) \<and>
   (diffPromises t k = Some e \<and> changeId_bufnr k = Some b \<and> ed_buffers (nvim t) b = Some buf \<longrightarrow>
     (\<exists>t'. acceptChanges k t = (True, t') \<and>
        ed_buffers (nvim t') b = Some (buf\<lparr>buf_modified := False\<rparr>) \<and>
        diffPromises t' = (diffPromises t)(k := None) \<and>
        resolve_calls t' =
          resolve_calls t @ [(de_promise e, FILE_SAVED (join_lines (buf_lines buf)))] \<and>
        (settled t (de_promise e) = None \<longrightarrow>
           settled t' (de_promise e) = Some (FILE_SAVED (join_lines (buf_lines buf)))) \<and>
        acceptChanges k t' = (False, t')))"
proof (intro conjI impI)
  assume "diffPromises t k = None"
  then show "acceptChanges k t = (False, t)" by (rule acceptChanges_absent)
next
  assume a: "diffPromises t k = Some e \<and> changeId_bufnr k = Some b \<and>
             ed_buffers (nvim t) b = Some buf"
  then have a1: "diffPromises t k = Some e" and a2: "changeId_bufnr k = Some b"
    and a3: "ed_buffers (nvim t) b = Some buf" by simp_all
  let ?t' = "log_write INFO (''Accepted changes for '' @ de_filePath e)
       (resolve (de_promise e) (FILE_SAVED (join_lines (buf_lines buf)))
         (t\<lparr>nvim := (nvim t)\<lparr>ed_buffers :=
                        (ed_buffers (nvim t))(b \<mapsto> buf\<lparr>buf_modified := False\<rparr>)\<rparr>,
            diffPromises := (diffPromises t)(k := None)\<rparr>))"
  have r: "acceptChanges k t = (True, ?t')" by (rule acceptChanges_found [OF a1 a2 a3])
  have n: "diffPromises ?t' k = None" by simp
  have "acceptChanges k ?t' = (False, ?t')" by (rule acceptChanges_absent [OF n])
  then show "\<exists>t'. acceptChanges k t = (True, t') \<and>
        ed_buffers (nvim t') b = Some (buf\<lparr>buf_modified := False\<rparr>) \<and>
        diffPromises t' = (diffPromises t)(k := None) \<and>
        resolve_calls t' =
          resolve_calls t @ [(de_promise e, FILE_SAVED (join_lines (buf_lines buf)))] \<and>
        (settled t (de_promise e) = None \<longrightarrow>
           settled t' (de_promise e) = Some (FILE_SAVED (join_lines (buf_lines buf)))) \<and>
        acceptChanges k t' = (False, t')"
    using r by (intro exI [of _ ?t']) simp
qed

theorem acceptChanges_pending_buffer_present_witness:
  "diffPromises ex_tools ''4242/9'' = None \<and>
   acceptChanges ''4242/9'' ex_tools = (False, ex_tools) \<and>
   diffPromises ex_tools ''4242/3'' = Some ex_entry \<and> changeId_bufnr ''4242/3'' = Some 3 \<and>
   ed_buffers (nvim ex_tools) 3 = Some ex_buffer \<and> settled ex_tools 0 = None \<and>
   (\<exists>t'. acceptChanges ''4242/3'' ex_tools = (True, t') \<and>
      ed_buffers (nvim t') 3 = Some (ex_buffer\<lparr>buf_modified := False\<rparr>) \<and>
      diffPromises t' ''4242/3'' = None \<and>
      resolve_calls t' = [(0, FILE_SAVED [CHR ''h'', CHR ''e'', CHR ''l'', CHR ''l'', CHR ''o'', CHR 0x0A])] \<and>
      settled t' 0 = Some (FILE_SAVED [CHR ''h'', CHR ''e'', CHR ''l'', CHR ''l'', CHR ''o'', CHR 0x0A]) \<and>
      acceptChanges ''4242/3'' t' = (False, t'))"
proof -
  have n: "diffPromises ex_tools ''4242/9'' = None" by (simp add: ex_tools_def)
  have a: "diffPromises ex_tools ''4242/3'' = Some ex_entry" by (simp add: ex_tools_def)
  have b: "ed_buffers (nvim ex_tools) 3 = Some ex_buffer"
    by (simp add: ex_tools_def ex_editor_def)
  have c: "settled ex_tools 0 = None" "resolve_calls ex_tools = []" "de_promise ex_entry = 0"
    "join_lines (buf_lines ex_buffer) = [CHR ''h'', CHR ''e'', CHR ''l'', CHR ''l'', CHR ''o'', CHR 0x0A]"
    by (simp_all add: ex_tools_def ex_entry_def ex_buffer_def)
  have h: "diffPromises ex_tools ''4242/3'' = Some ex_entry \<and>
           changeId_bufnr ''4242/3'' = Some 3 \<and> ed_buffers (nvim ex_tools) 3 = Some ex_buffer"
    using a b ex_key_bufnr by simp
  have 1: "acceptChanges ''4242/9'' ex_tools = (False, ex_tools)"
    using acceptChanges_pending_buffer_present [of ex_tools "''4242/9''", THEN conjunct1] n by simp
  from acceptChanges_pending_buffer_present
         [of ex_tools "''4242/3''" ex_entry 3 ex_buffer, THEN conjunct2, rule_format, OF h]
  obtain t' where 2: "acceptChanges ''4242/3'' ex_tools = (True, t') \<and>
        ed_buffers (nvim t') 3 = Some (ex_buffer\<lparr>buf_modified := False\<rparr>) \<and>
        diffPromises t' = (diffPromises ex_tools)(''4242/3'' := None) \<and>
        resolve_calls t' =
          resolve_calls ex_tools @ [(de_promise ex_entry, FILE_SAVED (join_lines (buf_lines ex_buffer)))] \<and>
        (settled ex_tools (de_promise ex_entry) = None \<longrightarrow>
           settled t' (de_promise ex_entry) = Some (FILE_SAVED (join_lines (buf_lines ex_buffer)))) \<and>
        acceptChanges ''4242/3'' t' = (False, t')" ..
  have 3: "\<exists>t'. acceptChanges ''4242/3'' ex_tools = (True, t') \<and>
      ed_buffers (nvim t') 3 = Some (ex_buffer\<lparr>buf_modified := False\<rparr>) \<and>
      diffPromises t' ''4242/3'' = None \<and>
      resolve_calls t' = [(0, FILE_SAVED [CHR ''h'', CHR ''e'', CHR ''l'', CHR ''l'', CHR ''o'', CHR 0x0A])] \<and>
      settled t' 0 = Some (FILE_SAVED [CHR ''h'', CHR ''e'', CHR ''l'', CHR ''l'', CHR ''o'', CHR 0x0A]) \<and>
      acceptChanges ''4242/3'' t' = (False, t')"
    using 2 c by (intro exI [of _ t']) simp
  show ?thesis by (intro conjI) (fact n 1 a ex_key_bufnr b c(1) 3)+
qed

text \<open>
  Claim C8. For every tab name for which \<^verbatim>\<open>bufnr(tab_name)\<close> is \<open>-1\<close>, \<open>close_tab\<close>
  returns the \<open>TAB_CLOSED\<close> payload without an error and leaves the whole state as it is;
  a second call with the same name does the same.
\<close>

theorem close_tab_missing:
  "fn_bufnr h (nvim t) tab_name = - 1 \<Longrightarrow>
   close_tab h tab_name t = (Inr TAB_CLOSED, t) \<and>
   close_tab h tab_name (snd (close_tab h tab_name t)) = (Inr TAB_CLOSED, t)"
  by (simp add: close_tab_def)

theorem close_tab_missing_witness:
  "fn_bufnr ex_host (nvim ex_tools) ''missing.txt'' = - 1 \<and>
   close_tab ex_host ''missing.txt'' ex_tools = (Inr TAB_CLOSED, ex_tools) \<and>
   close_tab ex_host ''missing.txt'' (snd (close_tab ex_host ''missing.txt'' ex_tools)) =
     (Inr TAB_CLOSED, ex_tools)"
proof -
  have h: "fn_bufnr ex_host (nvim ex_tools) ''missing.txt'' = - 1" by (simp add: ex_host_def)
  show ?thesis using h close_tab_missing [OF h] by simp
qed

text \<open>
  Claim C1 says that at most one of \<open>acceptChanges\<close>, \<open>dropChanges\<close> and the drop of the
  BufWipeout autocmd succeeds for a key, the others returning \<open>false\<close>. Both handlers test
  \<^verbatim>\<open>diffPromises.has(changeId)\<close> before their first \<^verbatim>\<open>await\<close> and delete the key after
  their last. With an accept and a drop of the key \<open>4242/3\<close> in flight together and
  resumed in turn, both pass the test, both return \<open>true\<close>, and \<open>resolve\<close> is called twice
  on promise 0: first with \<open>DIFF_REJECTED\<close>, which settles it, then with \<open>FILE_SAVED\<close>.
\<close>

theorem accept_and_drop_interleaved_both_return_true:
  "fst (run_schedule [0, 1, 0, 1, 0, 1, 0]
          [AcceptCall ''4242/3'' A_entry, DropCall ''4242/3'' D_entry] ex_tools) =
     [AcceptCall ''4242/3'' (A_return True), DropCall ''4242/3'' (D_return True)] \<and>
   resolve_calls (snd (run_schedule [0, 1, 0, 1, 0, 1, 0]
          [AcceptCall ''4242/3'' A_entry, DropCall ''4242/3'' D_entry] ex_tools)) =
     [(0, DIFF_REJECTED), (0, FILE_SAVED [CHR ''h'', CHR ''e'', CHR ''l'', CHR ''l'', CHR ''o'', CHR 0x0A])] \<and>
   settled (snd (run_schedule [0, 1, 0, 1, 0, 1, 0]
          [AcceptCall ''4242/3'' A_entry, DropCall ''4242/3'' D_entry] ex_tools)) 0 =
     Some DIFF_REJECTED"
  by (simp add: ex_tools_def ex_editor_def ex_entry_def ex_buffer_def ex_key_bufnr
      find_buffer_def buffer_lines_def set_modified_def drop_finish_def resolve_def log_write_def)


subsection \<open>The authenticated listener\<close>

lemma verifyClient_iff: "verifyClient tok hdr = Accepted \<longleftrightarrow> hdr = Single tok"
  by (cases hdr) (auto simp: verifyClient_def strict_eq_token_def)

lemma verifyClient_reject:
  "hdr \<noteq> Single tok \<Longrightarrow> verifyClient tok hdr = Rejected 401 ''Unauthorized''"
  by (cases hdr) (auto simp: verifyClient_def strict_eq_token_def)

lemma length_amap_set:
  "k \<notin> fst ` set ps \<Longrightarrow> length (amap_set k v ps) = Suc (length ps)"
  by (induction ps) auto

lemma handleClient_open_count:
  "readyState (sockets s ws) = OPEN \<Longrightarrow> ws \<notin> fst ` set (clientServers m) \<Longrightarrow>
   getClientCount (fst (handleClient ws m s)) = Suc (getClientCount m)"
  by (simp add: handleClient_def getClientCount_def Let_def length_amap_set)

text \<open>
  Claim C4. For every upgrade request that reaches \<open>verifyClient\<close> of a running server,
  the connection is accepted if and only if the \<open>x-claude-code-ide-authorization\<close> header
  is a string equal to the session token. With any other header (absent, a list, another
  string) the upgrade is rejected with status 401 and \<open>Unauthorized\<close>, \<open>handleClient\<close> is
  not run, and the manager and everything else stay as they are, the session count
  included. An accepted connection on a new socket adds one session.
\<close>

theorem upgrade_accepted_iff_token:
  "wss m = Some w \<Longrightarrow>
   (fst (on_upgrade hdr ws m s) = Some Accepted \<longleftrightarrow> hdr = Single (wss_authToken w)) \<and>
   (hdr \<noteq> Single (wss_authToken w) \<longrightarrow>
      on_upgrade hdr ws m s = (Some (Rejected 401 ''Unauthorized''), m, s)) \<and>
   (hdr = Single (wss_authToken w) \<and> ws \<notin> fst ` set (clientServers m) \<longrightarrow>
      getClientCount (fst (snd (on_upgrade hdr ws m s))) = Suc (getClientCount m))"
proof (intro conjI impI)
  assume w: "wss m = Some w"
  show "fst (on_upgrade hdr ws m s) = Some Accepted \<longleftrightarrow> hdr = Single (wss_authToken w)"
  proof (cases "hdr = Single (wss_authToken w)")
    case True
    then have "verifyClient (wss_authToken w) hdr = Accepted" by (simp add: verifyClient_iff)
    then show ?thesis using w True by (simp add: on_upgrade_def split: prod.splits)
  next
    case False
    then show ?thesis using w by (simp add: on_upgrade_def verifyClient_reject)
  qed
next
  assume "wss m = Some w" and "hdr \<noteq> Single (wss_authToken w)"
  then show "on_upgrade hdr ws m s = (Some (Rejected 401 ''Unauthorized''), m, s)"
    by (simp add: on_upgrade_def verifyClient_reject)
next
  assume w: "wss m = Some w"
    and h: "hdr = Single (wss_authToken w) \<and> ws \<notin> fst ` set (clientServers m)"
  let ?s = "s\<lparr>sockets := (sockets s)(ws := \<lparr>readyState = OPEN, outbox = []\<rparr>)\<rparr>"
  have v: "verifyClient (wss_authToken w) hdr = Accepted" using h by (simp add: verifyClient_iff)
  have "fst (snd (on_upgrade hdr ws m s)) = fst (handleClient ws m ?s)"
    using w v by (simp add: on_upgrade_def split: prod.splits)
  moreover have "getClientCount (fst (handleClient ws m ?s)) = Suc (getClientCount m)"
    using h by (intro handleClient_open_count) simp_all
  ultimately show "getClientCount (fst (snd (on_upgrade hdr ws m s))) = Suc (getClientCount m)"
    by simp
qed

theorem upgrade_accepted_iff_token_witness:
  "wss ex_manager = Some ex_wss \<and>
   Absent \<noteq> Single (wss_authToken ex_wss) \<and>
   fst (on_upgrade Absent 1 ex_manager ex_sys) \<noteq> Some Accepted \<and>
   on_upgrade Absent 1 ex_manager ex_sys = (Some (Rejected 401 ''Unauthorized''), ex_manager, ex_sys) \<and>
   Single [] \<noteq> Single (wss_authToken ex_wss) \<and>
   on_upgrade (Single []) 1 ex_manager ex_sys = (Some (Rejected 401 ''Unauthorized''), ex_manager, ex_sys) \<and>
   1 \<notin> fst ` set (clientServers ex_manager) \<and>
   fst (on_upgrade (Single (wss_authToken ex_wss)) 1 ex_manager ex_sys) = Some Accepted \<and>
   getClientCount (fst (snd (on_upgrade (Single (wss_authToken ex_wss)) 1 ex_manager ex_sys))) = 2"
proof -
  have w: "wss ex_manager = Some ex_wss" by (simp add: ex_manager_def)
  have c: "1 \<notin> fst ` set (clientServers ex_manager)" "getClientCount ex_manager = 1"
    by (simp_all add: ex_manager_def getClientCount_def)
  have t: "wss_authToken ex_wss \<noteq> []"
    using length_randomUUID [of "\<lambda>i. 0"] by (auto simp: ex_wss_def)
  note a = upgrade_accepted_iff_token [OF w, of Absent 1 ex_sys]
  note b = upgrade_accepted_iff_token [OF w, of "Single []" 1 ex_sys]
  note d = upgrade_accepted_iff_token [OF w, of "Single (wss_authToken ex_wss)" 1 ex_sys]
  have 1: "fst (on_upgrade Absent 1 ex_manager ex_sys) \<noteq> Some Accepted" using a by simp
  have 2: "on_upgrade Absent 1 ex_manager ex_sys = (Some (Rejected 401 ''Unauthorized''), ex_manager, ex_sys)"
    using a by simp
  have 3: "Single [] \<noteq> Single (wss_authToken ex_wss)" using t by simp
  have 4: "on_upgrade (Single []) 1 ex_manager ex_sys = (Some (Rejected 401 ''Unauthorized''), ex_manager, ex_sys)"
    using b 3 by simp
  have 5: "fst (on_upgrade (Single (wss_authToken ex_wss)) 1 ex_manager ex_sys) = Some Accepted"
    using d by simp
  have 6: "getClientCount (fst (snd (on_upgrade (Single (wss_authToken ex_wss)) 1 ex_manager ex_sys))) = 2"
    using d c by simp
  have 0: "Absent \<noteq> Single (wss_authToken ex_wss)" by simp
  show ?thesis by (intro conjI) (fact w 0 1 2 3 4 c(1) 5 6)+
qed


subsection \<open>Start and stop\<close>

lemma clearInterval_fields [simp]:
  "sy_nvim (clearInterval tm s) = sy_nvim s" "sy_settled (clearInterval tm s) = sy_settled s"
  "sy_resolve_calls (clearInterval tm s) = sy_resolve_calls s"
  "sy_next_promise (clearInterval tm s) = sy_next_promise s"
  "sy_logLevel (clearInterval tm s) = sy_logLevel s" "sy_out (clearInterval tm s) = sy_out s"
  "sockets (clearInterval tm s) = sockets s" "next_timer (clearInterval tm s) = next_timer s"
  "sy_fs (clearInterval tm s) = sy_fs s"
  "events (clearInterval tm s) = events s @ [ClearInterval tm]"
  by (simp_all add: clearInterval_def)

lemma ws_close_fields [simp]:
  "sy_nvim (ws_close ws s) = sy_nvim s" "sy_settled (ws_close ws s) = sy_settled s"
  "sy_resolve_calls (ws_close ws s) = sy_resolve_calls s"
  "sy_next_promise (ws_close ws s) = sy_next_promise s"
  "sy_logLevel (ws_close ws s) = sy_logLevel s" "sy_out (ws_close ws s) = sy_out s"
  "timers (ws_close ws s) = timers s" "next_timer (ws_close ws s) = next_timer s"
  "sy_fs (ws_close ws s) = sy_fs s"
  "events (ws_close ws s) = events s @ [WsClose ws]"
  by (simp_all add: ws_close_def)

lemma sys_log_cleared [simp]: "cleared (sys_log l msg s) tm = cleared s tm"
  by (simp add: cleared_def)

lemma ws_close_cleared [simp]: "cleared (ws_close ws s) tm = cleared s tm"
  by (simp add: cleared_def)

lemma clearInterval_cleared: "cleared (clearInterval tm s) tm"
  by (simp add: cleared_def clearInterval_def split: option.splits)

lemma clearInterval_keeps_cleared: "cleared s tm \<Longrightarrow> cleared (clearInterval tm' s) tm"
  by (auto simp: cleared_def clearInterval_def split: option.splits)

lemma ws_close_keeps_closed:
  "readyState (sockets s w) = CLOSED \<Longrightarrow> readyState (sockets (ws_close ws s) w) = CLOSED"
  by (auto simp: ws_close_def)

lemma closes_simps [simp]:
  "\<not> closes w (ClearInterval tm)" "\<not> closes w ServerClose"
  "closes w (McpServerClose ws mcp) = (ws = w)" "closes w (WsClose ws) = (ws = w)"
  by (auto simp: closes_def)

text \<open>
  What is left of a listener keeps the sockets, the tool sets and the files, and adds no
  event that closes a session.
\<close>

lemma close_listener_rest_frame:
  assumes "close_listener_rest r m s = (m', s')"
  shows "changeHandlers m' = changeHandlers m \<and> wss m' = wss m \<and>
         sockets s' = sockets s \<and> sy_nvim s' = sy_nvim s \<and> sy_settled s' = sy_settled s \<and>
         sy_resolve_calls s' = sy_resolve_calls s \<and> sy_fs s' = sy_fs s"
  using assms by (auto simp: close_listener_rest_def split: option.splits)

lemma close_listener_rest_intervals:
  assumes "close_listener_rest r m s = (m', s')" and "k \<noteq> r"
  shows "healthCheckIntervals m' k = healthCheckIntervals m k"
  using assms by (auto simp: close_listener_rest_def split: option.splits)

lemma close_listener_rest_cleared:
  assumes "close_listener_rest r m s = (m', s')" and "cleared s tm"
  shows "cleared s' tm"
  using assms by (auto simp: close_listener_rest_def clearInterval_keeps_cleared split: option.splits)

lemma close_listener_rest_events:
  assumes "close_listener_rest r m s = (m', s')"
  shows "\<exists>ces. events s' = events s @ ces \<and> (\<forall>w. list_all (\<lambda>e. \<not> closes w e) ces)"
proof (cases "healthCheckIntervals m r")
  case None
  then have "events s' = events s @ []" using assms by (auto simp: close_listener_rest_def)
  then show ?thesis by (intro exI [of _ "[]"]) simp
next
  case (Some tm)
  then have "events s' = events s @ [ClearInterval tm]"
    using assms by (auto simp: close_listener_rest_def)
  then show ?thesis by (intro exI [of _ "[ClearInterval tm]"]) simp
qed

lemma resume_listeners_frame:
  "resume_listeners rs susp m s = (susp', m', s') \<Longrightarrow>
   changeHandlers m' = changeHandlers m \<and> wss m' = wss m \<and>
   sockets s' = sockets s \<and> sy_nvim s' = sy_nvim s \<and> sy_settled s' = sy_settled s \<and>
   sy_resolve_calls s' = sy_resolve_calls s \<and> sy_fs s' = sy_fs s"
proof (induction rs arbitrary: susp m s)
  case Nil
  then show ?case by simp
next
  case (Cons r rs)
  show ?case
  proof (cases "r \<in> set susp")
    case False
    then show ?thesis using Cons by simp
  next
    case True
    obtain m1 s1 where c: "close_listener_rest r m s = (m1, s1)"
      by (cases "close_listener_rest r m s")
    then have "resume_listeners rs (removeAll r susp) m1 s1 = (susp', m', s')"
      using Cons.prems True by simp
    from Cons.IH [OF this] close_listener_rest_frame [OF c] show ?thesis by simp
  qed
qed

lemma resume_listeners_suspended:
  "resume_listeners rs susp m s = (susp', m', s') \<Longrightarrow> set susp' \<subseteq> set susp"
proof (induction rs arbitrary: susp m s)
  case Nil
  then show ?case by simp
next
  case (Cons r rs)
  show ?case
  proof (cases "r \<in> set susp")
    case False
    then show ?thesis using Cons by simp
  next
    case True
    obtain m1 s1 where c: "close_listener_rest r m s = (m1, s1)"
      by (cases "close_listener_rest r m s")
    then have "resume_listeners rs (removeAll r susp) m1 s1 = (susp', m', s')"
      using Cons.prems True by simp
    from Cons.IH [OF this] show ?thesis by auto
  qed
qed

lemma resume_listeners_intervals:
  "resume_listeners rs susp m s = (susp', m', s') \<Longrightarrow> k \<notin> set susp \<Longrightarrow>
   healthCheckIntervals m' k = healthCheckIntervals m k"
proof (induction rs arbitrary: susp m s)
  case Nil
  then show ?case by simp
next
  case (Cons r rs)
  show ?case
  proof (cases "r \<in> set susp")
    case False
    then show ?thesis using Cons by simp
  next
    case True
    obtain m1 s1 where c: "close_listener_rest r m s = (m1, s1)"
      by (cases "close_listener_rest r m s")
    then have 1: "resume_listeners rs (removeAll r susp) m1 s1 = (susp', m', s')"
      using Cons.prems True by simp
    have 2: "k \<notin> set (removeAll r susp)" using Cons.prems(2) by simp
    have 3: "k \<noteq> r" using True Cons.prems(2) by auto
    from Cons.IH [OF 1 2] close_listener_rest_intervals [OF c 3] show ?thesis by simp
  qed
qed

lemma resume_listeners_cleared:
  "resume_listeners rs susp m s = (susp', m', s') \<Longrightarrow> cleared s tm \<Longrightarrow> cleared s' tm"
proof (induction rs arbitrary: susp m s)
  case Nil
  then show ?case by simp
next
  case (Cons r rs)
  show ?case
  proof (cases "r \<in> set susp")
    case False
    then show ?thesis using Cons by simp
  next
    case True
    obtain m1 s1 where c: "close_listener_rest r m s = (m1, s1)"
      by (cases "close_listener_rest r m s")
    then have 1: "resume_listeners rs (removeAll r susp) m1 s1 = (susp', m', s')"
      using Cons.prems True by simp
    from Cons.IH [OF 1 close_listener_rest_cleared [OF c Cons.prems(2)]] show ?thesis .
  qed
qed

lemma resume_listeners_events:
  "resume_listeners rs susp m s = (susp', m', s') \<Longrightarrow>
   \<exists>ces. events s' = events s @ ces \<and> (\<forall>w. list_all (\<lambda>e. \<not> closes w e) ces)"
proof (induction rs arbitrary: susp m s)
  case Nil
  then have "events s' = events s @ []" by simp
  then show ?case by (intro exI [of _ "[]"]) simp
next
  case (Cons r rs)
  show ?case
  proof (cases "r \<in> set susp")
    case False
    then show ?thesis using Cons by simp
  next
    case True
    obtain m1 s1 where c: "close_listener_rest r m s = (m1, s1)"
      by (cases "close_listener_rest r m s")
    then have 1: "resume_listeners rs (removeAll r susp) m1 s1 = (susp', m', s')"
      using Cons.prems True by simp
    from close_listener_rest_events [OF c]
    obtain c1 where c1: "events s1 = events s @ c1 \<and> (\<forall>w. list_all (\<lambda>e. \<not> closes w e) c1)" ..
    from Cons.IH [OF 1]
    obtain c2 where c2: "events s' = events s1 @ c2 \<and> (\<forall>w. list_all (\<lambda>e. \<not> closes w e) c2)" ..
    show ?thesis using c1 c2 by (intro exI [of _ "c1 @ c2"]) simp
  qed
qed


text \<open>
  One turn of the loop closes the socket of its session and clears its interval first; the
  events it adds close no other session.
\<close>

lemma close_session_frame [simp]:
  "sy_nvim (close_session m c s) = sy_nvim s" "sy_settled (close_session m c s) = sy_settled s"
  "sy_resolve_calls (close_session m c s) = sy_resolve_calls s"
  "sy_fs (close_session m c s) = sy_fs s"
  by (simp_all add: close_session_def Let_def split: prod.splits option.splits)

lemma close_session_closed:
  "readyState (sockets (close_session m (ws, mcp) s) ws) = CLOSED"
  "readyState (sockets s w) = CLOSED \<Longrightarrow> readyState (sockets (close_session m (ws, mcp) s) w) = CLOSED"
  by (simp_all add: close_session_def Let_def split: option.splits)

lemma close_session_cleared:
  "cleared s tm \<Longrightarrow> cleared (close_session m c s) tm"
  "healthCheckIntervals m ws = Some tm \<Longrightarrow> cleared (close_session m (ws, mcp) s) tm"
  by (auto simp: close_session_def Let_def cleared_def clearInterval_def split: prod.splits option.splits)

lemma close_session_events:
  "events (close_session m (ws, mcp) s) =
     events s @ (case healthCheckIntervals m ws of Some tm \<Rightarrow> [ClearInterval tm] | None \<Rightarrow> []) @
     [McpServerClose ws mcp]"
  by (simp add: close_session_def Let_def split: option.splits)

lemma stop_turn_unfold:
  assumes "stop_turn resumed (ws, mcp) (susp, m, s) = (susp1, m1, s1)"
  shows "\<exists>s4. resume_listeners (resumed ws) (susp @ [ws]) m (close_session m (ws, mcp) s) =
              (susp1, m1, s4) \<and> s1 = ws_close ws s4"
  using assms by (auto simp: stop_turn_def split: prod.splits)

lemma stop_turn_frame:
  assumes "stop_turn resumed (ws, mcp) (susp, m, s) = (susp1, m1, s1)"
  shows "changeHandlers m1 = changeHandlers m \<and> wss m1 = wss m \<and>
         sy_nvim s1 = sy_nvim s \<and> sy_settled s1 = sy_settled s \<and>
         sy_resolve_calls s1 = sy_resolve_calls s \<and> sy_fs s1 = sy_fs s"
proof -
  from stop_turn_unfold [OF assms] obtain s4 where
    r: "resume_listeners (resumed ws) (susp @ [ws]) m (close_session m (ws, mcp) s) = (susp1, m1, s4)
        \<and> s1 = ws_close ws s4" ..
  then have r1: "resume_listeners (resumed ws) (susp @ [ws]) m (close_session m (ws, mcp) s) =
                   (susp1, m1, s4)"
    and r2: "s1 = ws_close ws s4" by simp_all
  show ?thesis using resume_listeners_frame [OF r1] r2 by simp
qed

lemma stop_turn_suspended:
  assumes "stop_turn resumed (ws, mcp) (susp, m, s) = (susp1, m1, s1)"
  shows "set susp1 \<subseteq> insert ws (set susp)"
proof -
  from stop_turn_unfold [OF assms] obtain s4 where
    r: "resume_listeners (resumed ws) (susp @ [ws]) m (close_session m (ws, mcp) s) = (susp1, m1, s4)
        \<and> s1 = ws_close ws s4" ..
  then have r1: "resume_listeners (resumed ws) (susp @ [ws]) m (close_session m (ws, mcp) s) =
                   (susp1, m1, s4)"
    and r2: "s1 = ws_close ws s4" by simp_all
  show ?thesis using resume_listeners_suspended [OF r1] by auto
qed

lemma stop_turn_intervals:
  assumes "stop_turn resumed (ws, mcp) (susp, m, s) = (susp1, m1, s1)"
    and "k \<notin> set susp" and "k \<noteq> ws"
  shows "healthCheckIntervals m1 k = healthCheckIntervals m k"
proof -
  from stop_turn_unfold [OF assms(1)] obtain s4 where
    r: "resume_listeners (resumed ws) (susp @ [ws]) m (close_session m (ws, mcp) s) = (susp1, m1, s4)
        \<and> s1 = ws_close ws s4" ..
  then have r1: "resume_listeners (resumed ws) (susp @ [ws]) m (close_session m (ws, mcp) s) =
                   (susp1, m1, s4)"
    and r2: "s1 = ws_close ws s4" by simp_all
  show ?thesis using resume_listeners_intervals [OF r1, of k] assms(2,3) by simp
qed

lemma stop_turn_closed:
  assumes "stop_turn resumed (ws, mcp) (susp, m, s) = (susp1, m1, s1)"
  shows "readyState (sockets s1 ws) = CLOSED"
    and "readyState (sockets s w) = CLOSED \<Longrightarrow> readyState (sockets s1 w) = CLOSED"
proof -
  from stop_turn_unfold [OF assms] obtain s4 where
    r: "resume_listeners (resumed ws) (susp @ [ws]) m (close_session m (ws, mcp) s) = (susp1, m1, s4)
        \<and> s1 = ws_close ws s4" ..
  then have r1: "resume_listeners (resumed ws) (susp @ [ws]) m (close_session m (ws, mcp) s) =
                   (susp1, m1, s4)"
    and r2: "s1 = ws_close ws s4" by simp_all
  have s: "sockets s4 = sockets (close_session m (ws, mcp) s)"
    using resume_listeners_frame [OF r1] by simp
  show "readyState (sockets s1 ws) = CLOSED"
    using r s by (simp add: ws_close_keeps_closed close_session_closed)
  show "readyState (sockets s w) = CLOSED \<Longrightarrow> readyState (sockets s1 w) = CLOSED"
    using r s by (simp add: ws_close_keeps_closed close_session_closed)
qed

lemma stop_turn_cleared:
  assumes "stop_turn resumed (ws, mcp) (susp, m, s) = (susp1, m1, s1)"
  shows "cleared s tm \<Longrightarrow> cleared s1 tm"
    and "healthCheckIntervals m ws = Some tm \<Longrightarrow> cleared s1 tm"
proof -
  from stop_turn_unfold [OF assms] obtain s4 where
    r: "resume_listeners (resumed ws) (susp @ [ws]) m (close_session m (ws, mcp) s) = (susp1, m1, s4)
        \<and> s1 = ws_close ws s4" ..
  then have r1: "resume_listeners (resumed ws) (susp @ [ws]) m (close_session m (ws, mcp) s) =
                   (susp1, m1, s4)"
    and r2: "s1 = ws_close ws s4" by simp_all
  have k: "cleared (close_session m (ws, mcp) s) tm \<Longrightarrow> cleared s1 tm"
    using resume_listeners_cleared [OF r1, of tm] r2 by simp
  show "cleared s tm \<Longrightarrow> cleared s1 tm" by (rule k) (rule close_session_cleared)
  show "healthCheckIntervals m ws = Some tm \<Longrightarrow> cleared s1 tm"
    by (rule k) (rule close_session_cleared)
qed

lemma stop_turn_events:
  assumes "stop_turn resumed (ws, mcp) (susp, m, s) = (susp1, m1, s1)"
  shows "\<exists>evs. events s1 = events s @ evs \<and>
           (\<forall>w. w \<noteq> ws \<longrightarrow> list_all (\<lambda>e. \<not> closes w e) evs) \<and>
           (\<forall>tm. healthCheckIntervals m ws = Some tm \<longrightarrow> (\<exists>post. evs = ClearInterval tm # post))"
proof -
  from stop_turn_unfold [OF assms] obtain s4 where
    r: "resume_listeners (resumed ws) (susp @ [ws]) m (close_session m (ws, mcp) s) = (susp1, m1, s4)
        \<and> s1 = ws_close ws s4" ..
  then have r1: "resume_listeners (resumed ws) (susp @ [ws]) m (close_session m (ws, mcp) s) =
                   (susp1, m1, s4)"
    and r2: "s1 = ws_close ws s4" by simp_all
  have "\<exists>ces. events s4 = events (close_session m (ws, mcp) s) @ ces \<and>
                  (\<forall>w. list_all (\<lambda>e. \<not> closes w e) ces)"
    by (rule resume_listeners_events [OF r1])
  then obtain ces where c: "events s4 = events (close_session m (ws, mcp) s) @ ces \<and>
                  (\<forall>w. list_all (\<lambda>e. \<not> closes w e) ces)" ..
  let ?evs = "(case healthCheckIntervals m ws of Some tm \<Rightarrow> [ClearInterval tm] | None \<Rightarrow> []) @
              [McpServerClose ws mcp] @ ces @ [WsClose ws]"
  have 1: "events s1 = events s @ ?evs" using r c by (simp add: close_session_events)
  have 2: "\<forall>w. w \<noteq> ws \<longrightarrow> list_all (\<lambda>e. \<not> closes w e) ?evs"
    using c by (auto split: option.splits)
  have 3: "\<forall>tm. healthCheckIntervals m ws = Some tm \<longrightarrow> (\<exists>post. ?evs = ClearInterval tm # post)"
    by simp
  show ?thesis using 1 2 3 by (intro exI [of _ ?evs]) simp
qed


text \<open>The loop over the sessions.\<close>

lemma stop_loop_frame:
  "fold (stop_turn resumed) cs (susp, m, s) = (susp', m', s') \<Longrightarrow>
   changeHandlers m' = changeHandlers m \<and> wss m' = wss m \<and>
   sy_nvim s' = sy_nvim s \<and> sy_settled s' = sy_settled s \<and>
   sy_resolve_calls s' = sy_resolve_calls s \<and> sy_fs s' = sy_fs s"
proof (induction cs arbitrary: susp m s)
  case Nil
  then show ?case by simp
next
  case (Cons c cs)
  obtain ws mcp where c: "c = (ws, mcp)" by (cases c)
  obtain susp1 m1 s1 where t: "stop_turn resumed (ws, mcp) (susp, m, s) = (susp1, m1, s1)"
    by (cases "stop_turn resumed (ws, mcp) (susp, m, s)")
  then have "fold (stop_turn resumed) cs (susp1, m1, s1) = (susp', m', s')"
    using Cons.prems c by simp
  from Cons.IH [OF this] stop_turn_frame [OF t] show ?case by simp
qed

lemma stop_loop_keeps_closed:
  "fold (stop_turn resumed) cs (susp, m, s) = (susp', m', s') \<Longrightarrow>
   readyState (sockets s w) = CLOSED \<Longrightarrow> readyState (sockets s' w) = CLOSED"
proof (induction cs arbitrary: susp m s)
  case Nil
  then show ?case by simp
next
  case (Cons c cs)
  obtain ws mcp where c: "c = (ws, mcp)" by (cases c)
  obtain susp1 m1 s1 where t: "stop_turn resumed (ws, mcp) (susp, m, s) = (susp1, m1, s1)"
    by (cases "stop_turn resumed (ws, mcp) (susp, m, s)")
  then have f: "fold (stop_turn resumed) cs (susp1, m1, s1) = (susp', m', s')"
    using Cons.prems c by simp
  have "readyState (sockets s1 w) = CLOSED" using stop_turn_closed(2) [OF t] Cons.prems(2) .
  from Cons.IH [OF f this] show ?case .
qed

lemma stop_loop_closes:
  "fold (stop_turn resumed) cs (susp, m, s) = (susp', m', s') \<Longrightarrow>
   (w, mcpw) \<in> set cs \<Longrightarrow> readyState (sockets s' w) = CLOSED"
proof (induction cs arbitrary: susp m s)
  case Nil
  then show ?case by simp
next
  case (Cons c cs)
  obtain ws mcp where c: "c = (ws, mcp)" by (cases c)
  obtain susp1 m1 s1 where t: "stop_turn resumed (ws, mcp) (susp, m, s) = (susp1, m1, s1)"
    by (cases "stop_turn resumed (ws, mcp) (susp, m, s)")
  then have f: "fold (stop_turn resumed) cs (susp1, m1, s1) = (susp', m', s')"
    using Cons.prems c by simp
  show ?case
  proof (cases "(w, mcpw) = c")
    case True
    then have "readyState (sockets s1 w) = CLOSED" using stop_turn_closed(1) [OF t] c by simp
    then show ?thesis by (rule stop_loop_keeps_closed [OF f])
  next
    case False
    then have "(w, mcpw) \<in> set cs" using Cons.prems(2) by simp
    from Cons.IH [OF f this] show ?thesis .
  qed
qed

lemma stop_loop_keeps_cleared:
  "fold (stop_turn resumed) cs (susp, m, s) = (susp', m', s') \<Longrightarrow>
   cleared s tm \<Longrightarrow> cleared s' tm"
proof (induction cs arbitrary: susp m s)
  case Nil
  then show ?case by simp
next
  case (Cons c cs)
  obtain ws mcp where c: "c = (ws, mcp)" by (cases c)
  obtain susp1 m1 s1 where t: "stop_turn resumed (ws, mcp) (susp, m, s) = (susp1, m1, s1)"
    by (cases "stop_turn resumed (ws, mcp) (susp, m, s)")
  then have f: "fold (stop_turn resumed) cs (susp1, m1, s1) = (susp', m', s')"
    using Cons.prems c by simp
  have "cleared s1 tm" using stop_turn_cleared(1) [OF t] Cons.prems(2) .
  from Cons.IH [OF f this] show ?case .
qed

lemma stop_loop_events:
  "fold (stop_turn resumed) cs (susp, m, s) = (susp', m', s') \<Longrightarrow>
   \<exists>evs. events s' = events s @ evs \<and>
         (\<forall>w. w \<notin> fst ` set cs \<longrightarrow> list_all (\<lambda>e. \<not> closes w e) evs)"
proof (induction cs arbitrary: susp m s)
  case Nil
  then have "events s' = events s @ []" by simp
  then show ?case by (intro exI [of _ "[]"]) simp
next
  case (Cons c cs)
  obtain ws mcp where c: "c = (ws, mcp)" by (cases c)
  obtain susp1 m1 s1 where t: "stop_turn resumed (ws, mcp) (susp, m, s) = (susp1, m1, s1)"
    by (cases "stop_turn resumed (ws, mcp) (susp, m, s)")
  then have f: "fold (stop_turn resumed) cs (susp1, m1, s1) = (susp', m', s')"
    using Cons.prems c by simp
  from stop_turn_events [OF t] obtain e1 where
    e1: "events s1 = events s @ e1 \<and> (\<forall>w. w \<noteq> ws \<longrightarrow> list_all (\<lambda>e. \<not> closes w e) e1) \<and>
         (\<forall>tm. healthCheckIntervals m ws = Some tm \<longrightarrow> (\<exists>post. e1 = ClearInterval tm # post))" ..
  from Cons.IH [OF f] obtain e2 where
    e2: "events s' = events s1 @ e2 \<and>
         (\<forall>w. w \<notin> fst ` set cs \<longrightarrow> list_all (\<lambda>e. \<not> closes w e) e2)" ..
  show ?case using e1 e2 c by (intro exI [of _ "e1 @ e2"]) simp
qed

lemma stop_loop_order:
  "fold (stop_turn resumed) cs (susp, m, s) = (susp', m', s') \<Longrightarrow>
   w \<notin> set susp \<Longrightarrow> (w, mcpw) \<in> set cs \<Longrightarrow> healthCheckIntervals m w = Some tm \<Longrightarrow>
   cleared s' tm \<and>
   (\<exists>pre post. events s' = events s @ pre @ ClearInterval tm # post \<and>
               list_all (\<lambda>e. \<not> closes w e) pre)"
proof (induction cs arbitrary: susp m s)
  case Nil
  then show ?case by simp
next
  case (Cons c cs)
  obtain ws mcp where c: "c = (ws, mcp)" by (cases c)
  obtain susp1 m1 s1 where t: "stop_turn resumed (ws, mcp) (susp, m, s) = (susp1, m1, s1)"
    by (cases "stop_turn resumed (ws, mcp) (susp, m, s)")
  then have f: "fold (stop_turn resumed) cs (susp1, m1, s1) = (susp', m', s')"
    using Cons.prems(1) c by simp
  from stop_turn_events [OF t] obtain e1 where
    e1: "events s1 = events s @ e1 \<and> (\<forall>w. w \<noteq> ws \<longrightarrow> list_all (\<lambda>e. \<not> closes w e) e1) \<and>
         (\<forall>tm. healthCheckIntervals m ws = Some tm \<longrightarrow> (\<exists>post. e1 = ClearInterval tm # post))" ..
  show ?case
  proof (cases "w = ws")
    case True
    then obtain post1 where p: "e1 = ClearInterval tm # post1" using e1 Cons.prems(4) by blast
    from stop_loop_events [OF f] obtain e2 where
      e2: "events s' = events s1 @ e2 \<and>
           (\<forall>w. w \<notin> fst ` set cs \<longrightarrow> list_all (\<lambda>e. \<not> closes w e) e2)" ..
    have "cleared s1 tm" using stop_turn_cleared(2) [OF t] Cons.prems(4) True by simp
    then have cl: "cleared s' tm" by (rule stop_loop_keeps_cleared [OF f])
    have "events s' = events s @ [] @ ClearInterval tm # (post1 @ e2)" using e1 e2 p by simp
    then have "\<exists>pre post. events s' = events s @ pre @ ClearInterval tm # post \<and>
               list_all (\<lambda>e. \<not> closes w e) pre"
      by (intro exI [of _ "[]"] exI [of _ "post1 @ e2"]) simp
    then show ?thesis using cl by simp
  next
    case False
    then have mem: "(w, mcpw) \<in> set cs" using Cons.prems(3) c by auto
    have h: "healthCheckIntervals m1 w = Some tm"
      using stop_turn_intervals [OF t Cons.prems(2) False] Cons.prems(4) by simp
    have "set susp1 \<subseteq> insert ws (set susp)" by (rule stop_turn_suspended [OF t])
    then have ns: "w \<notin> set susp1" using False Cons.prems(2) by auto
    from Cons.IH [OF f ns mem h]
    have cl: "cleared s' tm"
      and ex: "\<exists>pre post. events s' = events s1 @ pre @ ClearInterval tm # post \<and>
               list_all (\<lambda>e. \<not> closes w e) pre" by simp_all
    from ex obtain pre where "\<exists>post. events s' = events s1 @ pre @ ClearInterval tm # post \<and>
               list_all (\<lambda>e. \<not> closes w e) pre" ..
    then obtain post where pp: "events s' = events s1 @ pre @ ClearInterval tm # post \<and>
               list_all (\<lambda>e. \<not> closes w e) pre" ..
    have "events s' = events s @ (e1 @ pre) @ ClearInterval tm # post \<and>
          list_all (\<lambda>e. \<not> closes w e) (e1 @ pre)"
      using e1 pp False by simp
    then have "\<exists>pre post. events s' = events s @ pre @ ClearInterval tm # post \<and>
               list_all (\<lambda>e. \<not> closes w e) pre"
      by (intro exI [of _ "e1 @ pre"] exI [of _ post])
    then show ?thesis using cl by simp
  qed
qed

lemma files_wss_on_close: "files (wss_on_close w f) = (files f)(wss_lockFilePath w := None)"
  by (auto simp: wss_on_close_def)

lemma stop_running:
  assumes "wss m = Some w"
    and "fold (stop_turn resumed) (clientServers m) ([], m, s) = (susp, m0, s1)"
  shows "stop resumed m s = (Inr (),
     m0\<lparr>clientServers := [], healthCheckIntervals := Map.empty, wss := None\<rparr>,
     sys_log INFO ''Server stopped''
       (s1\<lparr>sy_fs := wss_on_close w (sy_fs s1),
           events := events s1 @ [ServerClose],
           sy_nvim := (sy_nvim s1)\<lparr>ed_port_var := 0\<rparr>\<rparr>))"
  using assms by (simp add: stop_def Let_def)

lemma stop_lock_file:
  assumes "wss m = Some w"
  shows "fst (stop resumed m s) = Inr () \<and> wss (fst (snd (stop resumed m s))) = None \<and>
         files (sy_fs (snd (snd (stop resumed m s)))) = (files (sy_fs s))(wss_lockFilePath w := None)"
proof -
  obtain susp m0 s1 where f: "fold (stop_turn resumed) (clientServers m) ([], m, s) = (susp, m0, s1)"
    by (cases "fold (stop_turn resumed) (clientServers m) ([], m, s)")
  from stop_loop_frame [OF f] have "sy_fs s1 = sy_fs s" by simp
  then show ?thesis by (simp add: stop_running [OF assms f] files_wss_on_close)
qed

lemma lockFilePath_inject: "lockFilePath env p = lockFilePath env q \<Longrightarrow> p = q"
  by (simp add: lockFilePath_def show_int_inject)

text \<open>
  Claim C6. Starting a manager that is not running, on a port in \<open>1..65535\<close>, writes the
  file system at exactly one path, \<^verbatim>\<open>~/.claude/ide/<port>.lock\<close>, a function of the port
  that gives different paths for different ports. The file holds the JSON object with
  the fields \<open>pid\<close>, \<open>workspaceFolders\<close>, \<open>ideName\<close>, \<open>transport\<close> equal to \<open>ws\<close>, and
  \<open>authToken\<close>, a token of 36 characters. Stopping a manager that runs this server
  succeeds and removes the file, whichever \<^verbatim>\<open>'close'\<close> listeners resume meanwhile.
\<close>

theorem discovery_file_written_and_removed:
  assumes "wss m = None" and "1 \<le> port m" and "port m \<le> 65535"
  shows "\<exists>w m1 s1.
      start env rnd m s = (Inr (), m1, s1) \<and> wss m1 = Some w \<and>
      wss_port w = port m \<and> wss_lockFilePath w = lockFilePath env (port m) \<and>
      length (wss_authToken w) = 36 \<and>
      files (sy_fs s1) = (files (sy_fs s))(lockFilePath env (port m) \<mapsto>
        JObj [(''pid'', JNum (proc_pid env)),
              (''workspaceFolders'', JArr [JStr (ed_cwd (sy_nvim s))]),
              (''ideName'', JStr ''neovim''),
              (''transport'', JStr ''ws''),
              (''authToken'', JStr (wss_authToken w))]) \<and>
      (\<forall>q. lockFilePath env q = lockFilePath env (port m) \<longrightarrow> q = port m) \<and>
      (\<forall>resumed m' s'. wss m' = Some w \<longrightarrow>
         fst (stop resumed m' s') = Inr () \<and> wss (fst (snd (stop resumed m' s'))) = None \<and>
         files (sy_fs (snd (snd (stop resumed m' s')))) =
           (files (sy_fs s'))(lockFilePath env (port m) := None))"
proof -
  let ?tok = "randomUUID rnd"
  let ?w = "\<lparr>wss_host = ''127.0.0.1'', wss_port = port m, wss_path = ''/'',
             wss_authToken = ?tok, wss_lockFilePath = lockFilePath env (port m)\<rparr>"
  have c: "\<exists>f. createClaudeWebSocketServer env rnd
                \<lparr>cfg_port = port m, cfg_path = Some ''/'',
                 cfg_workspaceFolders = Some [ed_cwd (sy_nvim s)], cfg_ideName = Some ''neovim''\<rparr>
                (sy_fs s) = (Inr ?w, f) \<and>
             files f = (files (sy_fs s))(lockFilePath env (port m) \<mapsto>
               JObj [(''pid'', JNum (proc_pid env)),
                     (''workspaceFolders'', JArr [JStr (ed_cwd (sy_nvim s))]),
                     (''ideName'', JStr ''neovim''),
                     (''transport'', JStr ''ws''),
                     (''authToken'', JStr ?tok)])"
    using assms(2,3)
    by (simp add: createClaudeWebSocketServer_def Let_def or_default_def lock_json_def)
  then obtain f where f: "createClaudeWebSocketServer env rnd
                \<lparr>cfg_port = port m, cfg_path = Some ''/'',
                 cfg_workspaceFolders = Some [ed_cwd (sy_nvim s)], cfg_ideName = Some ''neovim''\<rparr>
                (sy_fs s) = (Inr ?w, f) \<and>
             files f = (files (sy_fs s))(lockFilePath env (port m) \<mapsto>
               JObj [(''pid'', JNum (proc_pid env)),
                     (''workspaceFolders'', JArr [JStr (ed_cwd (sy_nvim s))]),
                     (''ideName'', JStr ''neovim''),
                     (''transport'', JStr ''ws''),
                     (''authToken'', JStr ?tok)])" ..
  obtain m1 s1 where st: "start env rnd m s = (Inr (), m1, s1) \<and> wss m1 = Some ?w \<and> sy_fs s1 = f"
    using assms(1) f by (simp add: start_def Let_def)
  have stop: "\<forall>resumed m' s'. wss m' = Some ?w \<longrightarrow>
         fst (stop resumed m' s') = Inr () \<and> wss (fst (snd (stop resumed m' s'))) = None \<and>
         files (sy_fs (snd (snd (stop resumed m' s')))) =
           (files (sy_fs s'))(lockFilePath env (port m) := None)"
  proof (intro allI impI)
    fix resumed :: "nat \<Rightarrow> nat list" and m' :: manager and s' :: sys
    assume "wss m' = Some ?w"
    from stop_lock_file [OF this, of resumed s']
    show "fst (stop resumed m' s') = Inr () \<and> wss (fst (snd (stop resumed m' s'))) = None \<and>
         files (sy_fs (snd (snd (stop resumed m' s')))) =
           (files (sy_fs s'))(lockFilePath env (port m) := None)" by simp
  qed
  have inj: "\<forall>q. lockFilePath env q = lockFilePath env (port m) \<longrightarrow> q = port m"
    using lockFilePath_inject by blast
  show ?thesis
    using st f stop inj
    by (intro exI [of _ ?w] exI [of _ m1] exI [of _ s1]) (simp add: length_randomUUID)
qed


lemma new_manager_port: "port (new_manager p r) \<noteq> 0 \<and> wss (new_manager p r) = None"
  by (simp add: new_manager_def getRandomPort_def split: option.splits)

lemma ex_lock_path: "lockFilePath ex_env 45678 = ''/home/u/.claude/ide/45678.lock''"
  by (simp add: lockFilePath_def claudeDir_def ex_env_def show_int_def show_nat.simps digit_char_def)

theorem discovery_file_written_and_removed_witness:
  "wss (new_manager (Some 45678) 0) = None \<and> 1 \<le> port (new_manager (Some 45678) 0) \<and>
   port (new_manager (Some 45678) 0) \<le> 65535 \<and>
   (\<exists>w m1 s1.
      start ex_env (\<lambda>i. 0) (new_manager (Some 45678) 0) ex_sys = (Inr (), m1, s1) \<and>
      wss m1 = Some w \<and> wss_port w = 45678 \<and>
      wss_lockFilePath w = ''/home/u/.claude/ide/45678.lock'' \<and>
      length (wss_authToken w) = 36 \<and>
      files (sy_fs s1) ''/home/u/.claude/ide/45678.lock'' =
        Some (JObj [(''pid'', JNum 777),
              (''workspaceFolders'', JArr [JStr ''/work'']),
              (''ideName'', JStr ''neovim''),
              (''transport'', JStr ''ws''),
              (''authToken'', JStr (wss_authToken w))]) \<and>
      fst (stop ex_none_resumed m1 s1) = Inr () \<and>
      files (sy_fs (snd (snd (stop ex_none_resumed m1 s1)))) ''/home/u/.claude/ide/45678.lock'' = None \<and>
      lockFilePath ex_env 45679 \<noteq> wss_lockFilePath w)"
proof -
  let ?m = "new_manager (Some 45678) 0"
  have a: "wss ?m = None" and b: "1 \<le> port ?m" and c: "port ?m \<le> 65535" and p: "port ?m = 45678"
    by (simp_all add: new_manager_def)
  have e: "proc_pid ex_env = 777" "ed_cwd (sy_nvim ex_sys) = ''/work''"
    by (simp_all add: ex_env_def ex_sys_def ex_editor_def)
  from discovery_file_written_and_removed [OF a b c, of ex_env "\<lambda>i. 0" ex_sys]
  obtain w m1 s1 where r:
     "start ex_env (\<lambda>i. 0) ?m ex_sys = (Inr (), m1, s1) \<and> wss m1 = Some w \<and>
      wss_port w = port ?m \<and> wss_lockFilePath w = lockFilePath ex_env (port ?m) \<and>
      length (wss_authToken w) = 36 \<and>
      files (sy_fs s1) = (files (sy_fs ex_sys))(lockFilePath ex_env (port ?m) \<mapsto>
        JObj [(''pid'', JNum (proc_pid ex_env)),
              (''workspaceFolders'', JArr [JStr (ed_cwd (sy_nvim ex_sys))]),
              (''ideName'', JStr ''neovim''),
              (''transport'', JStr ''ws''),
              (''authToken'', JStr (wss_authToken w))]) \<and>
      (\<forall>q. lockFilePath ex_env q = lockFilePath ex_env (port ?m) \<longrightarrow> q = port ?m) \<and>
      (\<forall>resumed m' s'. wss m' = Some w \<longrightarrow>
         fst (stop resumed m' s') = Inr () \<and> wss (fst (snd (stop resumed m' s'))) = None \<and>
         files (sy_fs (snd (snd (stop resumed m' s')))) =
           (files (sy_fs s'))(lockFilePath ex_env (port ?m) := None))"
    by (elim exE)
  then have s: "fst (stop ex_none_resumed m1 s1) = Inr () \<and>
         files (sy_fs (snd (snd (stop ex_none_resumed m1 s1)))) =
           (files (sy_fs s1))(lockFilePath ex_env (port ?m) := None)"
    by simp
  have i: "lockFilePath ex_env 45679 \<noteq> wss_lockFilePath w"
  proof
    assume "lockFilePath ex_env 45679 = wss_lockFilePath w"
    then have "lockFilePath ex_env 45679 = lockFilePath ex_env (port ?m)" using r by simp
    then have "(45679::int) = port ?m" using r by blast
    then show False by (simp add: p)
  qed
  have "start ex_env (\<lambda>i. 0) ?m ex_sys = (Inr (), m1, s1) \<and>
      wss m1 = Some w \<and> wss_port w = 45678 \<and>
      wss_lockFilePath w = ''/home/u/.claude/ide/45678.lock'' \<and>
      length (wss_authToken w) = 36 \<and>
      files (sy_fs s1) ''/home/u/.claude/ide/45678.lock'' =
        Some (JObj [(''pid'', JNum 777),
              (''workspaceFolders'', JArr [JStr ''/work'']),
              (''ideName'', JStr ''neovim''),
              (''transport'', JStr ''ws''),
              (''authToken'', JStr (wss_authToken w))]) \<and>
      fst (stop ex_none_resumed m1 s1) = Inr () \<and>
      files (sy_fs (snd (snd (stop ex_none_resumed m1 s1)))) ''/home/u/.claude/ide/45678.lock'' = None \<and>
      lockFilePath ex_env 45679 \<noteq> wss_lockFilePath w"
    using r s i by (simp add: p e ex_lock_path)
  then have "\<exists>w m1 s1.
      start ex_env (\<lambda>i. 0) ?m ex_sys = (Inr (), m1, s1) \<and>
      wss m1 = Some w \<and> wss_port w = 45678 \<and>
      wss_lockFilePath w = ''/home/u/.claude/ide/45678.lock'' \<and>
      length (wss_authToken w) = 36 \<and>
      files (sy_fs s1) ''/home/u/.claude/ide/45678.lock'' =
        Some (JObj [(''pid'', JNum 777),
              (''workspaceFolders'', JArr [JStr ''/work'']),
              (''ideName'', JStr ''neovim''),
              (''transport'', JStr ''ws''),
              (''authToken'', JStr (wss_authToken w))]) \<and>
      fst (stop ex_none_resumed m1 s1) = Inr () \<and>
      files (sy_fs (snd (snd (stop ex_none_resumed m1 s1)))) ''/home/u/.claude/ide/45678.lock'' = None \<and>
      lockFilePath ex_env 45679 \<noteq> wss_lockFilePath w"
    by (intro exI)
  then show ?thesis using a b c by simp
qed


subsection \<open>Heartbeat\<close>

lemma ping_ids_append: "ping_ids (xs @ ys) = ping_ids xs @ ping_ids ys"
  by (induction xs rule: ping_ids.induct) simp_all

lemma tick_inactive: "timers s tm = Some hb \<Longrightarrow> \<not> hb_active hb \<Longrightarrow> health_check_tick outcome tm s = s"
  by (simp add: health_check_tick_def)

lemma tick_not_open:
  "timers s tm = Some hb \<Longrightarrow> readyState (sockets s (hb_ws hb)) \<noteq> OPEN \<Longrightarrow>
   health_check_tick outcome tm s = s"
  by (simp add: health_check_tick_def Let_def)

lemma tick_open:
  assumes "timers s tm = Some hb" and "hb_active hb" and "readyState (sockets s (hb_ws hb)) = OPEN"
  shows "timers (health_check_tick outcome tm s) =
           (timers s)(tm \<mapsto> hb\<lparr>hb_pingId := hb_pingId hb + 1, hb_active := (outcome = Delivered)\<rparr>)"
    and "sockets (health_check_tick outcome tm s) =
           (sockets s)(hb_ws hb := (sockets s (hb_ws hb))
              \<lparr>outbox := outbox (sockets s (hb_ws hb)) @ [Ping (hb_pingId hb)],
               readyState := (if outcome = Delivered then OPEN else CLOSING)\<rparr>)"
  using assms
  by (auto simp: health_check_tick_def Let_def clearInterval_def ws_close_def sys_log_def fun_eq_iff)

lemma run_ticks_inactive:
  "timers s tm = Some hb \<Longrightarrow> \<not> hb_active hb \<Longrightarrow> run_ticks os tm s = s"
  by (induction os) (simp_all add: tick_inactive)

lemma run_ticks_outbox:
  "timers s tm = Some hb \<Longrightarrow> hb_active hb \<Longrightarrow> readyState (sockets s (hb_ws hb)) = OPEN \<Longrightarrow>
   outbox (sockets (run_ticks os tm s) (hb_ws hb)) =
     outbox (sockets s (hb_ws hb)) @ map Ping [hb_pingId hb..<hb_pingId hb + probes_sent os]"
proof (induction os arbitrary: s hb)
  case Nil
  then show ?case by simp
next
  case (Cons outcome os)
  let ?s1 = "health_check_tick outcome tm s"
  let ?hb1 = "hb\<lparr>hb_pingId := hb_pingId hb + 1, hb_active := (outcome = Delivered)\<rparr>"
  note t = tick_open [OF Cons.prems, of outcome]
  have t1: "timers ?s1 tm = Some ?hb1" by (simp add: t)
  have o1: "outbox (sockets ?s1 (hb_ws hb)) = outbox (sockets s (hb_ws hb)) @ [Ping (hb_pingId hb)]"
    by (simp add: t)
  have r1: "readyState (sockets ?s1 (hb_ws hb)) = (if outcome = Delivered then OPEN else CLOSING)"
    by (simp add: t)
  show ?case
  proof (cases "outcome = Delivered")
    case True
    have a1: "hb_active ?hb1" and a2: "readyState (sockets ?s1 (hb_ws ?hb1)) = OPEN"
      using True r1 by simp_all
    have "outbox (sockets (run_ticks os tm ?s1) (hb_ws ?hb1)) =
          outbox (sockets ?s1 (hb_ws ?hb1)) @ map Ping [hb_pingId ?hb1..<hb_pingId ?hb1 + probes_sent os]"
      by (rule Cons.IH [OF t1 a1 a2])
    then show ?thesis using True o1 by (simp add: upt_rec [of "hb_pingId hb"])
  next
    case False
    have "run_ticks os tm ?s1 = ?s1" by (rule run_ticks_inactive [OF t1]) (simp add: False)
    then show ?thesis using False o1 by simp
  qed
qed

lemma handleClient_heartbeat:
  assumes "readyState (sockets s ws) = OPEN \<or> readyState (sockets s ws) = CONNECTING"
  shows "healthCheckIntervals (fst (handleClient ws m s)) ws = Some (next_timer s)"
    and "clientServers (fst (handleClient ws m s)) =
           amap_set ws (length (changeHandlers m)) (clientServers m)"
    and "timers (snd (handleClient ws m s)) =
           (timers s)(next_timer s \<mapsto> \<lparr>hb_ws = ws, hb_pingId = 0, hb_active = True\<rparr>)"
    and "sockets (snd (handleClient ws m s)) = (sockets s)(ws := (sockets s ws)\<lparr>readyState := OPEN\<rparr>)"
  using assms by (auto simp: handleClient_def Let_def sys_log_def)

lemma tick_invariant:
  assumes "timers s tm = Some hb"
    and "ping_ids (outbox (sockets s (hb_ws hb))) = [0..<hb_pingId hb]"
  shows "\<exists>hb'. timers (health_check_tick outcome tm s) tm = Some hb' \<and> hb_ws hb' = hb_ws hb \<and>
           ping_ids (outbox (sockets (health_check_tick outcome tm s) (hb_ws hb))) = [0..<hb_pingId hb']"
proof (cases "hb_active hb \<and> readyState (sockets s (hb_ws hb)) = OPEN")
  case True
  then show ?thesis using assms by (simp add: tick_open ping_ids_append)
next
  case False
  then have "health_check_tick outcome tm s = s"
    using assms(1) tick_inactive tick_not_open by blast
  then show ?thesis using assms by simp
qed

lemma run_ticks_invariant:
  "timers s tm = Some hb \<Longrightarrow> ping_ids (outbox (sockets s (hb_ws hb))) = [0..<hb_pingId hb] \<Longrightarrow>
   \<exists>hb'. timers (run_ticks os tm s) tm = Some hb' \<and> hb_ws hb' = hb_ws hb \<and>
         ping_ids (outbox (sockets (run_ticks os tm s) (hb_ws hb))) = [0..<hb_pingId hb']"
proof (induction os arbitrary: s hb)
  case Nil
  then show ?case by simp
next
  case (Cons outcome os)
  from tick_invariant [OF Cons.prems, of outcome]
  obtain hb1 where h: "timers (health_check_tick outcome tm s) tm = Some hb1 \<and> hb_ws hb1 = hb_ws hb \<and>
      ping_ids (outbox (sockets (health_check_tick outcome tm s) (hb_ws hb))) = [0..<hb_pingId hb1]" ..
  then have "\<exists>hb'. timers (run_ticks os tm (health_check_tick outcome tm s)) tm = Some hb' \<and>
      hb_ws hb' = hb_ws hb1 \<and>
      ping_ids (outbox (sockets (run_ticks os tm (health_check_tick outcome tm s)) (hb_ws hb1))) =
        [0..<hb_pingId hb']"
    by (intro Cons.IH) simp_all
  then show ?case using h by simp
qed

text \<open>
  Claim C7. \<open>handleClient\<close> gives the session of a socket that is open or connecting an
  interval of its own, with \<open>pingId = 0\<close>, and leaves every other interval as it is. A tick
  of a live session (interval set, socket open) hands to the socket one probe that
  carries the current \<open>pingId\<close> and increments \<open>pingId\<close>. If the send fails, through the
  callback or by throwing, the interval of that session is cleared and its socket is
  closed; every other socket and every other interval is left as it is. From a session
  with \<open>pingId = 0\<close> and no probe sent yet, the identifiers of the probes sent after any
  number of ticks are \<open>0, 1, ..., n - 1\<close> in this order, so they increase strictly from 0.
  Counted from \<open>handleClient\<close>: after any run of ticks of the new interval, the socket
  of the session has been handed exactly the probes \<open>0, 1, ..., n - 1\<close>, in this order, one
  for each tick up to and including the first one whose send fails.
\<close>

theorem heartbeat_ids_and_failure:
  "(timers s tm = Some hb \<and> hb_active hb \<and> readyState (sockets s (hb_ws hb)) = OPEN \<longrightarrow>
      outbox (sockets (health_check_tick outcome tm s) (hb_ws hb)) =
        outbox (sockets s (hb_ws hb)) @ [Ping (hb_pingId hb)] \<and>
      timers (health_check_tick outcome tm s) tm =
        Some (hb\<lparr>hb_pingId := hb_pingId hb + 1, hb_active := (outcome = Delivered)\<rparr>) \<and>
      readyState (sockets (health_check_tick outcome tm s) (hb_ws hb)) =
        (if outcome = Delivered then OPEN else CLOSING) \<and>
      (\<forall>ws. ws \<noteq> hb_ws hb \<longrightarrow>
         sockets (health_check_tick outcome tm s) ws = sockets s ws) \<and>
      (\<forall>tm'. tm' \<noteq> tm \<longrightarrow> timers (health_check_tick outcome tm s) tm' = timers s tm')) \<and>
   (timers s tm = Some hb \<and> hb_pingId hb = 0 \<and> ping_ids (outbox (sockets s (hb_ws hb))) = [] \<longrightarrow>
      (\<exists>hb'. timers (run_ticks os tm s) tm = Some hb' \<and>
         ping_ids (outbox (sockets (run_ticks os tm s) (hb_ws hb))) = [0..<hb_pingId hb'])) \<and>
   (readyState (sockets s c) = OPEN \<or> readyState (sockets s c) = CONNECTING \<longrightarrow>
      healthCheckIntervals (fst (handleClient c m s)) c = Some (next_timer s) \<and>
      timers (snd (handleClient c m s)) (next_timer s) =
        Some \<lparr>hb_ws = c, hb_pingId = 0, hb_active = True\<rparr> \<and>
      (\<forall>tm'. tm' \<noteq> next_timer s \<longrightarrow> timers (snd (handleClient c m s)) tm' = timers s tm') \<and>
      outbox (sockets (run_ticks os (next_timer s) (snd (handleClient c m s))) c) =
        outbox (sockets s c) @ map Ping [0..<probes_sent os])"
proof (intro conjI impI)
  assume a: "timers s tm = Some hb \<and> hb_active hb \<and> readyState (sockets s (hb_ws hb)) = OPEN"
  then have a1: "timers s tm = Some hb" and a2: "hb_active hb"
    and a3: "readyState (sockets s (hb_ws hb)) = OPEN" by simp_all
  note t = tick_open [OF a1 a2 a3, of outcome]
  show "outbox (sockets (health_check_tick outcome tm s) (hb_ws hb)) =
        outbox (sockets s (hb_ws hb)) @ [Ping (hb_pingId hb)]" by (simp add: t)
  show "timers (health_check_tick outcome tm s) tm =
        Some (hb\<lparr>hb_pingId := hb_pingId hb + 1, hb_active := (outcome = Delivered)\<rparr>)"
    by (simp add: t)
  show "readyState (sockets (health_check_tick outcome tm s) (hb_ws hb)) =
        (if outcome = Delivered then OPEN else CLOSING)" by (simp add: t)
  show "\<forall>ws. ws \<noteq> hb_ws hb \<longrightarrow> sockets (health_check_tick outcome tm s) ws = sockets s ws"
    by (simp add: t)
  show "\<forall>tm'. tm' \<noteq> tm \<longrightarrow> timers (health_check_tick outcome tm s) tm' = timers s tm'"
    by (simp add: t)
next
  assume "timers s tm = Some hb \<and> hb_pingId hb = 0 \<and> ping_ids (outbox (sockets s (hb_ws hb))) = []"
  then have "\<exists>hb'. timers (run_ticks os tm s) tm = Some hb' \<and> hb_ws hb' = hb_ws hb \<and>
         ping_ids (outbox (sockets (run_ticks os tm s) (hb_ws hb))) = [0..<hb_pingId hb']"
    by (intro run_ticks_invariant) simp_all
  then obtain hb' where "timers (run_ticks os tm s) tm = Some hb' \<and> hb_ws hb' = hb_ws hb \<and>
         ping_ids (outbox (sockets (run_ticks os tm s) (hb_ws hb))) = [0..<hb_pingId hb']" ..
  then show "\<exists>hb'. timers (run_ticks os tm s) tm = Some hb' \<and>
         ping_ids (outbox (sockets (run_ticks os tm s) (hb_ws hb))) = [0..<hb_pingId hb']"
    by (intro exI [of _ hb']) simp
next
  assume o: "readyState (sockets s c) = OPEN \<or> readyState (sockets s c) = CONNECTING"
  note h = handleClient_heartbeat [OF o, of m]
  let ?hb = "\<lparr>hb_ws = c, hb_pingId = 0, hb_active = True\<rparr>"
  show "healthCheckIntervals (fst (handleClient c m s)) c = Some (next_timer s)" by (rule h(1))
  show t: "timers (snd (handleClient c m s)) (next_timer s) = Some ?hb" by (simp add: h(3))
  show "\<forall>tm'. tm' \<noteq> next_timer s \<longrightarrow> timers (snd (handleClient c m s)) tm' = timers s tm'"
    by (simp add: h(3))
  have "outbox (sockets (run_ticks os (next_timer s) (snd (handleClient c m s))) (hb_ws ?hb)) =
        outbox (sockets (snd (handleClient c m s)) (hb_ws ?hb)) @
          map Ping [hb_pingId ?hb..<hb_pingId ?hb + probes_sent os]"
    by (rule run_ticks_outbox [OF t]) (simp_all add: h(4))
  then show "outbox (sockets (run_ticks os (next_timer s) (snd (handleClient c m s))) c) =
        outbox (sockets s c) @ map Ping [0..<probes_sent os]"
    by (simp add: h(4))
qed

theorem heartbeat_ids_and_failure_witness:
  "timers ex_sys 0 = Some ex_hb \<and> hb_active ex_hb \<and>
   readyState (sockets ex_sys (hb_ws ex_hb)) = OPEN \<and> hb_pingId ex_hb = 0 \<and>
   ping_ids (outbox (sockets ex_sys (hb_ws ex_hb))) = [] \<and>
   outbox (sockets (health_check_tick CallbackError 0 ex_sys) 0) = [Ping 0] \<and>
   timers (health_check_tick CallbackError 0 ex_sys) 0 =
     Some \<lparr>hb_ws = 0, hb_pingId = 1, hb_active = False\<rparr> \<and>
   readyState (sockets (health_check_tick CallbackError 0 ex_sys) 0) = CLOSING \<and>
   sockets (health_check_tick CallbackError 0 ex_sys) 1 = sockets ex_sys 1 \<and>
   timers (health_check_tick CallbackError 0 ex_sys) 1 = timers ex_sys 1 \<and>
   (\<exists>hb'. timers (run_ticks [Delivered, Delivered, Throws, Delivered] 0 ex_sys) 0 = Some hb' \<and>
      ping_ids (outbox (sockets (run_ticks [Delivered, Delivered, Throws, Delivered] 0 ex_sys) 0)) =
        [0..<hb_pingId hb']) \<and>
   readyState (sockets ex_sys_incoming 1) = OPEN \<and>
   healthCheckIntervals (fst (handleClient 1 ex_manager ex_sys_incoming)) 1 = Some 1 \<and>
   timers (snd (handleClient 1 ex_manager ex_sys_incoming)) 1 =
     Some \<lparr>hb_ws = 1, hb_pingId = 0, hb_active = True\<rparr> \<and>
   timers (snd (handleClient 1 ex_manager ex_sys_incoming)) 0 = timers ex_sys_incoming 0 \<and>
   outbox (sockets (run_ticks [Delivered, Delivered, Throws, Delivered] 1
                      (snd (handleClient 1 ex_manager ex_sys_incoming))) 1) =
     [Ping 0, Ping 1, Ping 2]"
proof -
  have a: "timers ex_sys 0 = Some ex_hb" "hb_active ex_hb"
    "readyState (sockets ex_sys (hb_ws ex_hb)) = OPEN" "hb_pingId ex_hb = 0"
    "ping_ids (outbox (sockets ex_sys (hb_ws ex_hb))) = []" "hb_ws ex_hb = 0"
    "outbox (sockets ex_sys 0) = []"
    by (simp_all add: ex_sys_def ex_hb_def)
  have b: "readyState (sockets ex_sys_incoming 1) = OPEN" "next_timer ex_sys_incoming = 1"
    "outbox (sockets ex_sys_incoming 1) = []"
    by (simp_all add: ex_sys_incoming_def ex_sys_def)
  have p: "map Ping [0..<probes_sent [Delivered, Delivered, Throws, Delivered]] =
           [Ping 0, Ping 1, Ping 2]"
    by (simp add: upt_rec)
  note t1 = heartbeat_ids_and_failure
    [where s = ex_sys and tm = 0 and hb = ex_hb and outcome = CallbackError, THEN conjunct1, rule_format]
  note t2 = heartbeat_ids_and_failure
    [where s = ex_sys and tm = 0 and hb = ex_hb and os = "[Delivered, Delivered, Throws, Delivered]",
     THEN conjunct2, THEN conjunct1, rule_format]
  note t3 = heartbeat_ids_and_failure
    [where s = ex_sys_incoming and c = 1 and m = ex_manager
       and os = "[Delivered, Delivered, Throws, Delivered]",
     THEN conjunct2, THEN conjunct2, rule_format]
  have h1: "timers ex_sys 0 = Some ex_hb \<and> hb_active ex_hb \<and>
            readyState (sockets ex_sys (hb_ws ex_hb)) = OPEN" using a by simp
  have h2: "timers ex_sys 0 = Some ex_hb \<and> hb_pingId ex_hb = 0 \<and>
            ping_ids (outbox (sockets ex_sys (hb_ws ex_hb))) = []" using a by simp
  have h3: "readyState (sockets ex_sys_incoming 1) = OPEN \<or>
            readyState (sockets ex_sys_incoming 1) = CONNECTING" using b by simp
  have 1: "outbox (sockets (health_check_tick CallbackError 0 ex_sys) 0) = [Ping 0]"
    using t1 [OF h1] a by simp
  have 2: "timers (health_check_tick CallbackError 0 ex_sys) 0 =
     Some \<lparr>hb_ws = 0, hb_pingId = 1, hb_active = False\<rparr>"
    using t1 [OF h1] by (simp add: ex_hb_def)
  have 3: "readyState (sockets (health_check_tick CallbackError 0 ex_sys) 0) = CLOSING"
    using t1 [OF h1] a by simp
  have 4: "sockets (health_check_tick CallbackError 0 ex_sys) 1 = sockets ex_sys 1"
    using t1 [OF h1] a by simp
  have 5: "timers (health_check_tick CallbackError 0 ex_sys) 1 = timers ex_sys 1"
    using t1 [OF h1] by simp
  have 6: "\<exists>hb'. timers (run_ticks [Delivered, Delivered, Throws, Delivered] 0 ex_sys) 0 = Some hb' \<and>
      ping_ids (outbox (sockets (run_ticks [Delivered, Delivered, Throws, Delivered] 0 ex_sys) 0)) =
        [0..<hb_pingId hb']"
    using t2 [OF h2] a(6) by simp
  have 7: "healthCheckIntervals (fst (handleClient 1 ex_manager ex_sys_incoming)) 1 = Some 1"
    using t3 [OF h3] b(2) by simp
  have 8: "timers (snd (handleClient 1 ex_manager ex_sys_incoming)) 1 =
     Some \<lparr>hb_ws = 1, hb_pingId = 0, hb_active = True\<rparr>"
    using t3 [OF h3] b(2) by simp
  have 9: "timers (snd (handleClient 1 ex_manager ex_sys_incoming)) 0 = timers ex_sys_incoming 0"
    using t3 [OF h3] b(2) by simp
  have 10: "outbox (sockets (run_ticks [Delivered, Delivered, Throws, Delivered] 1
                      (snd (handleClient 1 ex_manager ex_sys_incoming))) 1) =
     [Ping 0, Ping 1, Ping 2]"
    using t3 [OF h3] b(2,3) p by simp
  show ?thesis by (intro conjI) (fact a(1) a(2) a(3) a(4) a(5) 1 2 3 4 5 6 b(1) 7 8 9 10)+
qed

text \<open>Two probes are delivered, the third fails, and the fourth tick finds the interval cleared.\<close>

lemma ex_run_ticks:
  "ping_ids (outbox (sockets (run_ticks [Delivered, Delivered, Throws, Delivered] 0 ex_sys) 0)) = [0, 1, 2]"
  by (simp add: ex_sys_def health_check_tick_def Let_def clearInterval_def ws_close_def sys_log_def)


subsection \<open>Stopping the sessions\<close>

text \<open>
  Claim C2, as stated, says that \<open>stop\<close> terminates every pending diff continuation. It
  does not: \<open>stop\<close> never reaches the \<open>diffPromises\<close> maps. Stopping the example manager,
  which has one pending diff, succeeds and leaves the record in place and promise 0
  unsettled, with no call of a \<open>resolve\<close> function.
\<close>

theorem stop_leaves_pending_diffs_counterexample:
  "changeHandlers ex_manager = [[''4242/3'' \<mapsto> ex_entry]] \<and> sy_settled ex_sys 0 = None \<and>
   fst (stop ex_none_resumed ex_manager ex_sys) = Inr () \<and>
   changeHandlers (fst (snd (stop ex_none_resumed ex_manager ex_sys))) = [[''4242/3'' \<mapsto> ex_entry]] \<and>
   sy_settled (snd (snd (stop ex_none_resumed ex_manager ex_sys))) 0 = None \<and>
   sy_resolve_calls (snd (snd (stop ex_none_resumed ex_manager ex_sys))) = []"
proof -
  have w: "wss ex_manager = Some ex_wss" by (simp add: ex_manager_def)
  obtain susp m0 s1 where
    f: "fold (stop_turn ex_none_resumed) (clientServers ex_manager) ([], ex_manager, ex_sys) = (susp, m0, s1)"
    by (cases "fold (stop_turn ex_none_resumed) (clientServers ex_manager) ([], ex_manager, ex_sys)")
  note fr = stop_loop_frame [OF f]
  have a: "changeHandlers ex_manager = [[''4242/3'' \<mapsto> ex_entry]]" by (simp add: ex_manager_def)
  have b: "sy_settled ex_sys 0 = None" "sy_resolve_calls ex_sys = []" by (simp_all add: ex_sys_def)
  show ?thesis using a b fr by (simp add: stop_running [OF w f])
qed

text \<open>
  Claim C2, amended. \<open>stop\<close> on a running manager succeeds, whichever suspended
  \<^verbatim>\<open>'close'\<close> listeners resume while it waits. The heartbeat interval of each session is
  cleared before the MCP server and the socket of that session are closed: in the
  events of \<open>stop\<close>, a \<^verbatim>\<open>clearInterval\<close> of the interval comes before every close of that
  session. Afterwards every session's interval is cleared, every session's socket is
  closed, both session maps are empty, the listener has been closed last, and the lock
  file is removed. The pending diff records and their promises are left exactly as they
  were.
\<close>

theorem stop_sessions_and_lock_file:
  assumes "wss m = Some w"
  shows "\<exists>m' s'. stop resumed m s = (Inr (), m', s') \<and>
     wss m' = None \<and> clientServers m' = [] \<and> healthCheckIntervals m' = Map.empty \<and>
     (\<forall>ws mcp tm. (ws, mcp) \<in> set (clientServers m) \<and> healthCheckIntervals m ws = Some tm \<longrightarrow>
        cleared s' tm \<and>
        (\<exists>pre post. events s' = events s @ pre @ ClearInterval tm # post \<and>
                    list_all (\<lambda>e. \<not> closes ws e) pre)) \<and>
     (\<forall>ws mcp. (ws, mcp) \<in> set (clientServers m) \<longrightarrow> readyState (sockets s' ws) = CLOSED) \<and>
     (\<exists>evs. events s' = events s @ evs @ [ServerClose]) \<and>
     files (sy_fs s') = (files (sy_fs s))(wss_lockFilePath w := None) \<and>
     changeHandlers m' = changeHandlers m \<and> sy_settled s' = sy_settled s \<and>
     sy_resolve_calls s' = sy_resolve_calls s"
proof -
  obtain susp m0 s1 where f: "fold (stop_turn resumed) (clientServers m) ([], m, s) = (susp, m0, s1)"
    by (cases "fold (stop_turn resumed) (clientServers m) ([], m, s)")
  let ?m' = "m0\<lparr>clientServers := [], healthCheckIntervals := Map.empty, wss := None\<rparr>"
  let ?s' = "sys_log INFO ''Server stopped''
       (s1\<lparr>sy_fs := wss_on_close w (sy_fs s1), events := events s1 @ [ServerClose],
           sy_nvim := (sy_nvim s1)\<lparr>ed_port_var := 0\<rparr>\<rparr>)"
  have r: "stop resumed m s = (Inr (), ?m', ?s')" by (rule stop_running [OF assms f])
  note fr = stop_loop_frame [OF f]
  from stop_loop_events [OF f] obtain evs where
    ev: "events s1 = events s @ evs \<and>
         (\<forall>w. w \<notin> fst ` set (clientServers m) \<longrightarrow> list_all (\<lambda>e. \<not> closes w e) evs)" ..
  have e: "\<exists>evs. events ?s' = events s @ evs @ [ServerClose]"
    using ev by (intro exI [of _ evs]) simp
  have c: "\<forall>ws mcp tm. (ws, mcp) \<in> set (clientServers m) \<and> healthCheckIntervals m ws = Some tm \<longrightarrow>
        cleared ?s' tm \<and>
        (\<exists>pre post. events ?s' = events s @ pre @ ClearInterval tm # post \<and>
                    list_all (\<lambda>e. \<not> closes ws e) pre)"
  proof (intro allI impI)
    fix ws mcp tm
    assume "(ws, mcp) \<in> set (clientServers m) \<and> healthCheckIntervals m ws = Some tm"
    then have mem: "(ws, mcp) \<in> set (clientServers m)" and h: "healthCheckIntervals m ws = Some tm"
      by simp_all
    have n: "ws \<notin> set []" by simp
    from stop_loop_order [OF f n mem h]
    have cl: "cleared s1 tm"
      and ex: "\<exists>pre post. events s1 = events s @ pre @ ClearInterval tm # post \<and>
               list_all (\<lambda>e. \<not> closes ws e) pre" by simp_all
    from ex obtain pre where "\<exists>post. events s1 = events s @ pre @ ClearInterval tm # post \<and>
               list_all (\<lambda>e. \<not> closes ws e) pre" ..
    then obtain post where pp: "events s1 = events s @ pre @ ClearInterval tm # post \<and>
               list_all (\<lambda>e. \<not> closes ws e) pre" ..
    have "events ?s' = events s @ pre @ ClearInterval tm # (post @ [ServerClose]) \<and>
          list_all (\<lambda>e. \<not> closes ws e) pre"
      using pp by simp
    then have "\<exists>pre post. events ?s' = events s @ pre @ ClearInterval tm # post \<and>
                    list_all (\<lambda>e. \<not> closes ws e) pre"
      by (intro exI [of _ pre] exI [of _ "post @ [ServerClose]"])
    moreover have "cleared ?s' tm" using cl by (simp add: cleared_def)
    ultimately show "cleared ?s' tm \<and>
        (\<exists>pre post. events ?s' = events s @ pre @ ClearInterval tm # post \<and>
                    list_all (\<lambda>e. \<not> closes ws e) pre)" by simp
  qed
  have d: "\<forall>ws mcp. (ws, mcp) \<in> set (clientServers m) \<longrightarrow> readyState (sockets ?s' ws) = CLOSED"
  proof (intro allI impI)
    fix ws mcp
    assume "(ws, mcp) \<in> set (clientServers m)"
    from stop_loop_closes [OF f this] show "readyState (sockets ?s' ws) = CLOSED" by simp
  qed
  have g: "files (sy_fs ?s') = (files (sy_fs s))(wss_lockFilePath w := None)"
    using fr by (simp add: files_wss_on_close)
  have k: "wss ?m' = None" "clientServers ?m' = []" "healthCheckIntervals ?m' = Map.empty"
    "changeHandlers ?m' = changeHandlers m" "sy_settled ?s' = sy_settled s"
    "sy_resolve_calls ?s' = sy_resolve_calls s"
    using fr by simp_all
  have "stop resumed m s = (Inr (), ?m', ?s') \<and>
     wss ?m' = None \<and> clientServers ?m' = [] \<and> healthCheckIntervals ?m' = Map.empty \<and>
     (\<forall>ws mcp tm. (ws, mcp) \<in> set (clientServers m) \<and> healthCheckIntervals m ws = Some tm \<longrightarrow>
        cleared ?s' tm \<and>
        (\<exists>pre post. events ?s' = events s @ pre @ ClearInterval tm # post \<and>
                    list_all (\<lambda>e. \<not> closes ws e) pre)) \<and>
     (\<forall>ws mcp. (ws, mcp) \<in> set (clientServers m) \<longrightarrow> readyState (sockets ?s' ws) = CLOSED) \<and>
     (\<exists>evs. events ?s' = events s @ evs @ [ServerClose]) \<and>
     files (sy_fs ?s') = (files (sy_fs s))(wss_lockFilePath w := None) \<and>
     changeHandlers ?m' = changeHandlers m \<and> sy_settled ?s' = sy_settled s \<and>
     sy_resolve_calls ?s' = sy_resolve_calls s"
    by (intro conjI) (fact r k c d e g)+
  then show ?thesis by (intro exI [of _ ?m'] exI [of _ ?s'])
qed

theorem stop_sessions_and_lock_file_witness:
  "wss ex_manager2 = Some ex_wss \<and>
   (0, 0) \<in> set (clientServers ex_manager2) \<and> healthCheckIntervals ex_manager2 0 = Some 0 \<and>
   (1, 1) \<in> set (clientServers ex_manager2) \<and> healthCheckIntervals ex_manager2 1 = Some 1 \<and>
   (\<exists>m' s'. stop ex_resumed ex_manager2 ex_sys2 = (Inr (), m', s') \<and>
      clientServers m' = [] \<and> healthCheckIntervals m' = Map.empty \<and>
      cleared s' 0 \<and> cleared s' 1 \<and>
      (\<exists>pre post. events s' = pre @ ClearInterval 1 # post \<and> list_all (\<lambda>e. \<not> closes 1 e) pre) \<and>
      readyState (sockets s' 0) = CLOSED \<and> readyState (sockets s' 1) = CLOSED \<and>
      files (sy_fs s') ''/home/u/.claude/ide/45678.lock'' = None \<and>
      changeHandlers m' = changeHandlers ex_manager2 \<and> sy_settled s' = sy_settled ex_sys2)"
proof -
  have w: "wss ex_manager2 = Some ex_wss" by (simp add: ex_manager2_def ex_manager_def)
  have c0: "(0, 0) \<in> set (clientServers ex_manager2)"
    and h0: "healthCheckIntervals ex_manager2 0 = Some 0"
    and c1: "(1, 1) \<in> set (clientServers ex_manager2)"
    and h1: "healthCheckIntervals ex_manager2 1 = Some 1"
    by (simp_all add: ex_manager2_def ex_manager_def)
  have e: "events ex_sys2 = []" "wss_lockFilePath ex_wss = ''/home/u/.claude/ide/45678.lock''"
    by (simp_all add: ex_sys2_def ex_sys_def ex_wss_def)
  from stop_sessions_and_lock_file [OF w, of ex_resumed ex_sys2]
  obtain m' where "\<exists>s'. stop ex_resumed ex_manager2 ex_sys2 = (Inr (), m', s') \<and>
     wss m' = None \<and> clientServers m' = [] \<and> healthCheckIntervals m' = Map.empty \<and>
     (\<forall>ws mcp tm. (ws, mcp) \<in> set (clientServers ex_manager2) \<and>
                   healthCheckIntervals ex_manager2 ws = Some tm \<longrightarrow>
        cleared s' tm \<and>
        (\<exists>pre post. events s' = events ex_sys2 @ pre @ ClearInterval tm # post \<and>
                    list_all (\<lambda>e. \<not> closes ws e) pre)) \<and>
     (\<forall>ws mcp. (ws, mcp) \<in> set (clientServers ex_manager2) \<longrightarrow>
                readyState (sockets s' ws) = CLOSED) \<and>
     (\<exists>evs. events s' = events ex_sys2 @ evs @ [ServerClose]) \<and>
     files (sy_fs s') = (files (sy_fs ex_sys2))(wss_lockFilePath ex_wss := None) \<and>
     changeHandlers m' = changeHandlers ex_manager2 \<and> sy_settled s' = sy_settled ex_sys2 \<and>
     sy_resolve_calls s' = sy_resolve_calls ex_sys2" ..
  then obtain s' where r: "stop ex_resumed ex_manager2 ex_sys2 = (Inr (), m', s') \<and>
     wss m' = None \<and> clientServers m' = [] \<and> healthCheckIntervals m' = Map.empty \<and>
     (\<forall>ws mcp tm. (ws, mcp) \<in> set (clientServers ex_manager2) \<and>
                   healthCheckIntervals ex_manager2 ws = Some tm \<longrightarrow>
        cleared s' tm \<and>
        (\<exists>pre post. events s' = events ex_sys2 @ pre @ ClearInterval tm # post \<and>
                    list_all (\<lambda>e. \<not> closes ws e) pre)) \<and>
     (\<forall>ws mcp. (ws, mcp) \<in> set (clientServers ex_manager2) \<longrightarrow>
                readyState (sockets s' ws) = CLOSED) \<and>
     (\<exists>evs. events s' = events ex_sys2 @ evs @ [ServerClose]) \<and>
     files (sy_fs s') = (files (sy_fs ex_sys2))(wss_lockFilePath ex_wss := None) \<and>
     changeHandlers m' = changeHandlers ex_manager2 \<and> sy_settled s' = sy_settled ex_sys2 \<and>
     sy_resolve_calls s' = sy_resolve_calls ex_sys2" ..
  note r0 = r [THEN conjunct1]
  note r1 = r [THEN conjunct2, THEN conjunct2, THEN conjunct1]
  note r2 = r [THEN conjunct2, THEN conjunct2, THEN conjunct2, THEN conjunct1]
  note q = r [THEN conjunct2, THEN conjunct2, THEN conjunct2, THEN conjunct2, THEN conjunct1]
  note d = r [THEN conjunct2, THEN conjunct2, THEN conjunct2, THEN conjunct2, THEN conjunct2, THEN conjunct1]
  note fl = r [THEN conjunct2, THEN conjunct2, THEN conjunct2, THEN conjunct2, THEN conjunct2, THEN conjunct2, THEN conjunct2, THEN conjunct1]
  note r3 = r [THEN conjunct2, THEN conjunct2, THEN conjunct2, THEN conjunct2, THEN conjunct2, THEN conjunct2, THEN conjunct2, THEN conjunct2, THEN conjunct1]
  note r4 = r [THEN conjunct2, THEN conjunct2, THEN conjunct2, THEN conjunct2, THEN conjunct2, THEN conjunct2, THEN conjunct2, THEN conjunct2, THEN conjunct2, THEN conjunct1]
  have k0: "(0, 0) \<in> set (clientServers ex_manager2) \<and> healthCheckIntervals ex_manager2 0 = Some 0"
    using c0 h0 by simp
  have k1: "(1, 1) \<in> set (clientServers ex_manager2) \<and> healthCheckIntervals ex_manager2 1 = Some 1"
    using c1 h1 by simp
  have 1: "cleared s' 0" using q [rule_format, OF k0] by simp
  have 2: "cleared s' 1" using q [rule_format, OF k1] by simp
  have 3: "\<exists>pre post. events s' = pre @ ClearInterval 1 # post \<and> list_all (\<lambda>e. \<not> closes 1 e) pre"
    using q [rule_format, OF k1] by (simp add: e)
  have 4: "readyState (sockets s' 0) = CLOSED" using d [rule_format, OF c0] .
  have 5: "readyState (sockets s' 1) = CLOSED" using d [rule_format, OF c1] .
  have 6: "files (sy_fs s') ''/home/u/.claude/ide/45678.lock'' = None"
    using fl by (simp add: e)
  have "stop ex_resumed ex_manager2 ex_sys2 = (Inr (), m', s') \<and>
      clientServers m' = [] \<and> healthCheckIntervals m' = Map.empty \<and>
      cleared s' 0 \<and> cleared s' 1 \<and>
      (\<exists>pre post. events s' = pre @ ClearInterval 1 # post \<and> list_all (\<lambda>e. \<not> closes 1 e) pre) \<and>
      readyState (sockets s' 0) = CLOSED \<and> readyState (sockets s' 1) = CLOSED \<and>
      files (sy_fs s') ''/home/u/.claude/ide/45678.lock'' = None \<and>
      changeHandlers m' = changeHandlers ex_manager2 \<and> sy_settled s' = sy_settled ex_sys2"
    by (intro conjI) (fact r0 r1 r2 1 2 3 4 5 6 r3 r4)+
  then have ex: "\<exists>m' s'. stop ex_resumed ex_manager2 ex_sys2 = (Inr (), m', s') \<and>
      clientServers m' = [] \<and> healthCheckIntervals m' = Map.empty \<and>
      cleared s' 0 \<and> cleared s' 1 \<and>
      (\<exists>pre post. events s' = pre @ ClearInterval 1 # post \<and> list_all (\<lambda>e. \<not> closes 1 e) pre) \<and>
      readyState (sockets s' 0) = CLOSED \<and> readyState (sockets s' 1) = CLOSED \<and>
      files (sy_fs s') ''/home/u/.claude/ide/45678.lock'' = None \<and>
      changeHandlers m' = changeHandlers ex_manager2 \<and> sy_settled s' = sy_settled ex_sys2"
    by (intro exI)
  show ?thesis by (intro conjI) (fact w c0 h0 c1 h1 ex)+
qed


subsection \<open>Selection tracking\<close>

lemma send_if_open_readyState [simp]:
  "readyState (send_if_open fr k socks ws) = readyState (socks ws)"
  by (simp add: send_if_open_def)

lemma fold_send_readyState [simp]:
  "readyState (fold (send_if_open fr) ks socks ws) = readyState (socks ws)"
  by (induction ks arbitrary: socks) simp_all

lemma fold_send_not_key:
  "ws \<notin> set ks \<Longrightarrow> fold (send_if_open fr) ks socks ws = socks ws"
  by (induction ks arbitrary: socks) (auto simp: send_if_open_def)

lemma fold_send_outbox:
  "distinct ks \<Longrightarrow>
   outbox (fold (send_if_open fr) ks socks ws) =
     outbox (socks ws) @ (if ws \<in> set ks \<and> readyState (socks ws) = OPEN then [fr] else [])"
proof (induction ks arbitrary: socks)
  case Nil
  then show ?case by simp
next
  case (Cons k ks)
  show ?case
  proof (cases "k = ws")
    case True
    then have n: "ws \<notin> set ks" using Cons.prems by simp
    have "fold (send_if_open fr) (k # ks) socks ws =
          fold (send_if_open fr) ks (send_if_open fr ws socks) ws"
      using True by simp
    also have "\<dots> = send_if_open fr ws socks ws" by (rule fold_send_not_key [OF n])
    finally have "outbox (fold (send_if_open fr) (k # ks) socks ws) =
                  outbox (send_if_open fr ws socks ws)" by (rule arg_cong)
    also have "\<dots> = outbox (socks ws) @ (if readyState (socks ws) = OPEN then [fr] else [])"
      by (simp add: send_if_open_def)
    finally show ?thesis using True by (simp del: fold_simps)
  next
    case False
    then have "send_if_open fr k socks ws = socks ws" by (simp add: send_if_open_def)
    then show ?thesis using Cons False by simp
  qed
qed

lemma sendEmptySelection_sends:
  assumes "wss m \<noteq> None" and "ed_buffers (sy_nvim s) b = Some buf" and "buf_name buf \<noteq> []"
  shows "sockets (sendEmptySelection b m s) =
     fold (send_if_open (Selection_changed (empty_selection_of (sy_nvim s) (buf_name buf))))
       (map fst (clientServers m)) (sockets s)"
  using assms by (cases "wss m") (simp_all add: sendEmptySelection_def Let_def broadcast_def)

lemma sendEmptySelection_silent:
  "wss m = None \<or> ed_buffers (sy_nvim s) b = None \<or>
   (\<exists>buf. ed_buffers (sy_nvim s) b = Some buf \<and> buf_name buf = []) \<Longrightarrow>
   sendEmptySelection b m s = s"
  by (auto simp: sendEmptySelection_def Let_def)

lemma stopSelectionTracking_sockets:
  "selectionTracking m b \<noteq> None \<Longrightarrow>
   sockets (snd (stopSelectionTracking b m s)) =
     (if lastSelectionBuffer m = Some b
      then sockets (sendEmptySelection b (m\<lparr>selectionTracking := (selectionTracking m)(b := None)\<rparr>) s)
      else sockets s)"
  by (cases "selectionTracking m b") (simp_all add: stopSelectionTracking_def Let_def)

text \<open>
  Claim C5, as stated, makes the final notification depend on the last notification for
  the buffer having been non-empty. The code does not look at that: after a cursor
  movement in normal mode the last notification for buffer 3 is an empty selection, and
  stopping the tracking of buffer 3 still sends one more empty selection to the client.
\<close>

theorem stopSelectionTracking_emits_after_empty_counterexample:
  "selectionTracking ex_manager 3 = Some 1 \<and>
   outbox (sockets (snd ex_after_move) 0) = [Selection_changed ex_cursor_selection] \<and>
   sel_isEmpty ex_cursor_selection \<and>
   outbox (sockets (snd (stopSelectionTracking 3 (fst ex_after_move) (snd ex_after_move))) 0) =
     [Selection_changed ex_cursor_selection, Selection_changed ex_cursor_selection]"
  by (simp add: ex_after_move_def ex_cursor_selection_def ex_manager_def ex_sys_def ex_editor_def
      ex_buffer_def handleSelectionUpdate_def sendSelectionChanged_def stopSelectionTracking_def
      sendEmptySelection_def broadcast_def send_if_open_def selection_of_def empty_selection_of_def
      isVisual_def sys_log_def Let_def)

text \<open>
  Claim C5, amended. Stopping the tracking of a tracked buffer sends a final
  empty-selection notification exactly when that buffer is \<open>lastSelectionBuffer\<close>, the
  buffer of the most recent \<open>selection_changed\<close> notification that \<open>sendSelectionChanged\<close>
  sent, whether that notification was empty or not. Then, with the server running and
  the buffer still there under a name, every open client gets exactly one such
  notification and nothing else is sent, and \<open>lastSelectionBuffer\<close> is reset. If the
  buffer is not \<open>lastSelectionBuffer\<close>, or the server is not running, or the buffer is
  gone or has no name, nothing is sent. The tracking of the buffer ends in every case.
\<close>

theorem stopSelectionTracking_final_notification:
  assumes "selectionTracking m b \<noteq> None" and "distinct (map fst (clientServers m))"
  shows "(lastSelectionBuffer m \<noteq> Some b \<longrightarrow>
            sockets (snd (stopSelectionTracking b m s)) = sockets s) \<and>
         (lastSelectionBuffer m = Some b \<and> wss m \<noteq> None \<and>
          ed_buffers (sy_nvim s) b = Some buf \<and> buf_name buf \<noteq> [] \<longrightarrow>
            (\<forall>ws. readyState (sockets (snd (stopSelectionTracking b m s)) ws) =
                    readyState (sockets s ws) \<and>
                  outbox (sockets (snd (stopSelectionTracking b m s)) ws) =
                    outbox (sockets s ws) @
                    (if ws \<in> fst ` set (clientServers m) \<and> readyState (sockets s ws) = OPEN
                     then [Selection_changed (empty_selection_of (sy_nvim s) (buf_name buf))]
                     else []))) \<and>
         (lastSelectionBuffer m = Some b \<longrightarrow>
            lastSelectionBuffer (fst (stopSelectionTracking b m s)) = None) \<and>
         (wss m = None \<or> ed_buffers (sy_nvim s) b = None \<or>
          (\<exists>buf'. ed_buffers (sy_nvim s) b = Some buf' \<and> buf_name buf' = []) \<longrightarrow>
            sockets (snd (stopSelectionTracking b m s)) = sockets s) \<and>
         selectionTracking (fst (stopSelectionTracking b m s)) b = None \<and>
         (wss m \<noteq> None \<and> ed_buffers (sy_nvim s) b = Some buf \<and> buf_name buf \<noteq> [] \<longrightarrow>
            lastSelectionBuffer (fst (handleSelectionUpdate b m s)) = Some b)"
proof (intro conjI impI)
  assume "lastSelectionBuffer m \<noteq> Some b"
  then show "sockets (snd (stopSelectionTracking b m s)) = sockets s"
    using assms(1) by (simp add: stopSelectionTracking_sockets)
next
  let ?m1 = "m\<lparr>selectionTracking := (selectionTracking m)(b := None)\<rparr>"
  assume a: "lastSelectionBuffer m = Some b \<and> wss m \<noteq> None \<and>
          ed_buffers (sy_nvim s) b = Some buf \<and> buf_name buf \<noteq> []"
  then have "sockets (snd (stopSelectionTracking b m s)) =
     fold (send_if_open (Selection_changed (empty_selection_of (sy_nvim s) (buf_name buf))))
       (map fst (clientServers m)) (sockets s)"
    using assms(1) sendEmptySelection_sends [of ?m1 s b buf]
    by (simp add: stopSelectionTracking_sockets)
  then show "\<forall>ws. readyState (sockets (snd (stopSelectionTracking b m s)) ws) =
                    readyState (sockets s ws) \<and>
                  outbox (sockets (snd (stopSelectionTracking b m s)) ws) =
                    outbox (sockets s ws) @
                    (if ws \<in> fst ` set (clientServers m) \<and> readyState (sockets s ws) = OPEN
                     then [Selection_changed (empty_selection_of (sy_nvim s) (buf_name buf))]
                     else [])"
    using assms(2) by (simp add: fold_send_outbox)
next
  assume "lastSelectionBuffer m = Some b"
  then show "lastSelectionBuffer (fst (stopSelectionTracking b m s)) = None"
    using assms(1) by (cases "selectionTracking m b") (simp_all add: stopSelectionTracking_def Let_def)
next
  assume "wss m = None \<or> ed_buffers (sy_nvim s) b = None \<or>
          (\<exists>buf'. ed_buffers (sy_nvim s) b = Some buf' \<and> buf_name buf' = [])"
  then have "sendEmptySelection b (m\<lparr>selectionTracking := (selectionTracking m)(b := None)\<rparr>) s = s"
    by (intro sendEmptySelection_silent) simp
  then show "sockets (snd (stopSelectionTracking b m s)) = sockets s"
    using assms(1) by (simp add: stopSelectionTracking_sockets)
next
  show "selectionTracking (fst (stopSelectionTracking b m s)) b = None"
    using assms(1) by (cases "selectionTracking m b") (simp_all add: stopSelectionTracking_def Let_def)
next
  assume "wss m \<noteq> None \<and> ed_buffers (sy_nvim s) b = Some buf \<and> buf_name buf \<noteq> []"
  then show "lastSelectionBuffer (fst (handleSelectionUpdate b m s)) = Some b"
    using assms(1)
    by (cases "selectionTracking m b"; cases "wss m")
       (simp_all add: handleSelectionUpdate_def sendSelectionChanged_def Let_def)
qed


lemma ex_after_move_eq:
  "fst ex_after_move = ex_manager\<lparr>lastSelectionBuffer := Some 3\<rparr>"
  "sockets (snd ex_after_move) =
     (sockets ex_sys)(0 := \<lparr>readyState = OPEN, outbox = [Selection_changed ex_cursor_selection]\<rparr>)"
  "sy_nvim (snd ex_after_move) = ex_editor"
  by (simp_all add: ex_after_move_def ex_cursor_selection_def ex_manager_def ex_sys_def ex_editor_def
      ex_buffer_def handleSelectionUpdate_def sendSelectionChanged_def
      broadcast_def send_if_open_def selection_of_def isVisual_def sys_log_def Let_def)

theorem stopSelectionTracking_final_notification_witness:
  "selectionTracking ex_manager 3 \<noteq> None \<and> distinct (map fst (clientServers ex_manager)) \<and>
   lastSelectionBuffer ex_manager \<noteq> Some 3 \<and>
   sockets (snd (stopSelectionTracking 3 ex_manager ex_sys)) = sockets ex_sys \<and>
   lastSelectionBuffer (fst ex_after_move) = Some 3 \<and> wss (fst ex_after_move) \<noteq> None \<and>
   ed_buffers (sy_nvim (snd ex_after_move)) 3 = Some ex_buffer \<and> buf_name ex_buffer \<noteq> [] \<and>
   0 \<in> fst ` set (clientServers (fst ex_after_move)) \<and>
   readyState (sockets (snd ex_after_move) 0) = OPEN \<and>
   outbox (sockets (snd (stopSelectionTracking 3 (fst ex_after_move) (snd ex_after_move))) 0) =
     outbox (sockets (snd ex_after_move) 0) @
     [Selection_changed (empty_selection_of (sy_nvim (snd ex_after_move)) (buf_name ex_buffer))] \<and>
   outbox (sockets (snd (stopSelectionTracking 3 (fst ex_after_move) (snd ex_after_move))) 1) =
     outbox (sockets (snd ex_after_move) 1) \<and>
   lastSelectionBuffer (fst (stopSelectionTracking 3 (fst ex_after_move) (snd ex_after_move))) = None \<and>
   lastSelectionBuffer (fst (handleSelectionUpdate 3 ex_manager ex_sys)) = Some 3 \<and>
   ed_buffers (sy_nvim ex_after_move_wiped) 3 = None \<and>
   sockets (snd (stopSelectionTracking 3 (fst ex_after_move) ex_after_move_wiped)) =
     sockets ex_after_move_wiped"
proof -
  have a: "selectionTracking ex_manager 3 \<noteq> None" "distinct (map fst (clientServers ex_manager))"
    "lastSelectionBuffer ex_manager \<noteq> Some 3" "wss ex_manager \<noteq> None"
    "ed_buffers (sy_nvim ex_sys) 3 = Some ex_buffer" "buf_name ex_buffer \<noteq> []"
    by (simp_all add: ex_manager_def ex_sys_def ex_editor_def ex_buffer_def)
  have b: "selectionTracking (fst ex_after_move) 3 \<noteq> None"
    "distinct (map fst (clientServers (fst ex_after_move)))"
    "lastSelectionBuffer (fst ex_after_move) = Some 3" "wss (fst ex_after_move) \<noteq> None"
    "ed_buffers (sy_nvim (snd ex_after_move)) 3 = Some ex_buffer"
    "0 \<in> fst ` set (clientServers (fst ex_after_move))"
    "1 \<notin> fst ` set (clientServers (fst ex_after_move))"
    "readyState (sockets (snd ex_after_move) 0) = OPEN"
    by (simp_all add: ex_after_move_eq ex_manager_def ex_editor_def)
  note t1 = stopSelectionTracking_final_notification [OF a(1) a(2), of ex_sys ex_buffer]
  note t2 = stopSelectionTracking_final_notification
              [OF b(1) b(2), of "snd ex_after_move" ex_buffer]
  have 1: "sockets (snd (stopSelectionTracking 3 ex_manager ex_sys)) = sockets ex_sys"
    using t1 a(3) by simp
  have h: "lastSelectionBuffer (fst ex_after_move) = Some 3 \<and> wss (fst ex_after_move) \<noteq> None \<and>
          ed_buffers (sy_nvim (snd ex_after_move)) 3 = Some ex_buffer \<and> buf_name ex_buffer \<noteq> []"
    using b a(6) by simp
  note t3 = t2 [THEN conjunct2, THEN conjunct1, rule_format, OF h]
  have 2: "outbox (sockets (snd (stopSelectionTracking 3 (fst ex_after_move) (snd ex_after_move))) 0) =
     outbox (sockets (snd ex_after_move) 0) @
     [Selection_changed (empty_selection_of (sy_nvim (snd ex_after_move)) (buf_name ex_buffer))]"
    using t3 [of 0] b(6) b(8) by simp
  have 3: "outbox (sockets (snd (stopSelectionTracking 3 (fst ex_after_move) (snd ex_after_move))) 1) =
     outbox (sockets (snd ex_after_move) 1)"
    using t3 [of 1] b(7) by simp
  have 4: "lastSelectionBuffer (fst (stopSelectionTracking 3 (fst ex_after_move) (snd ex_after_move))) = None"
    using t2 b(3) by simp
  have h5: "wss ex_manager \<noteq> None \<and> ed_buffers (sy_nvim ex_sys) 3 = Some ex_buffer \<and>
            buf_name ex_buffer \<noteq> []" using a by simp
  have 5: "lastSelectionBuffer (fst (handleSelectionUpdate 3 ex_manager ex_sys)) = Some 3"
    using t1 [THEN conjunct2, THEN conjunct2, THEN conjunct2, THEN conjunct2, THEN conjunct2,
              rule_format, OF h5] .
  have 6: "ed_buffers (sy_nvim ex_after_move_wiped) 3 = None"
    by (simp add: ex_after_move_wiped_def)
  note t4 = stopSelectionTracking_final_notification
              [OF b(1) b(2), of ex_after_move_wiped ex_buffer]
  have 7: "sockets (snd (stopSelectionTracking 3 (fst ex_after_move) ex_after_move_wiped)) =
     sockets ex_after_move_wiped"
    using t4 6 by simp
  show ?thesis
    by (intro conjI) (fact a(1) a(2) a(3) 1 b(3) b(4) b(5) a(6) b(6) b(8) 2 3 4 5 6 7)+
qed


subsection \<open>Registering a diff, closing a session, stopping two sessions\<close>

text \<open>
  A successful \<open>openDiff\<close> stores its record under a key that is parsed back to the number
  of the buffer it created, with a new promise that it leaves unsettled.
\<close>

lemma then_ed_None:
  "then_ed r f = (None, ed') \<Longrightarrow> \<exists>ed. r = (None, ed) \<and> f ed = Inr ed'"
  by (cases r) (auto simp: then_ed_def split: option.splits sum.splits)

lemma openDiff_registers:
  assumes "openDiff h old_path new_path contents tab t = (Inr (k, p), t')"
  shows "k = mk_changeId (ed_pid (nvim t)) (ed_last_bufnr (nvim t) + 1) \<and>
         p = next_promise t \<and> next_promise t' = p + 1 \<and>
         diffPromises t' = (diffPromises t)(k \<mapsto>
            \<lparr>de_promise = p, de_filePath = new_path, de_bufnr = ed_last_bufnr (nvim t) + 1\<rparr>) \<and>
         changeId_bufnr k = Some (ed_last_bufnr (nvim t) + 1) \<and>
         settled t' = settled t \<and> resolve_calls t' = resolve_calls t"
  using assms
  by (auto simp: openDiff_def nvim_create_buf_def Let_def changeId_bufnr_mk
      split: prod.splits option.splits)


text \<open>When a socket has closed, its listener clears the interval and removes the session.\<close>

lemma on_ws_close_removes_session:
  assumes "healthCheckIntervals m ws = Some tm"
  shows "ws \<notin> fst ` set (clientServers (fst (on_ws_close ws m s))) \<and>
         healthCheckIntervals (fst (on_ws_close ws m s)) ws = None \<and>
         cleared (snd (on_ws_close ws m s)) tm \<and>
         readyState (sockets (snd (on_ws_close ws m s)) ws) = CLOSED"
  using assms
  by (auto simp: on_ws_close_def close_listener_rest_def amap_delete_def cleared_def clearInterval_def
      sys_log_def Let_def split: option.splits)

text \<open>
  With two sessions and no listener resumed, \<open>stop\<close> closes the first socket before it
  clears the interval of the second session.
\<close>

lemma stop_none_resumes:
  "events (snd (snd (stop ex_none_resumed ex_manager2 ex_sys2))) =
     [ClearInterval 0, McpServerClose 0 0, WsClose 0,
      ClearInterval 1, McpServerClose 1 1, WsClose 1, ServerClose]"
  by (simp add: stop_def stop_turn_def close_session_def close_listener_rest_def ex_none_resumed_def
      ex_manager2_def ex_manager_def ex_sys2_def ex_sys_def Let_def amap_delete_def)

text \<open>
  When the listener of the first socket resumes while \<open>stop\<close> waits for the MCP server of
  the second session, it clears the interval of the first session once more.
\<close>

lemma stop_listener_resumes:
  "events (snd (snd (stop ex_resumed ex_manager2 ex_sys2))) =
     [ClearInterval 0, McpServerClose 0 0, WsClose 0,
      ClearInterval 1, McpServerClose 1 1, ClearInterval 0, WsClose 1, ServerClose]"
  by (simp add: stop_def stop_turn_def close_session_def close_listener_rest_def ex_resumed_def
      ex_manager2_def ex_manager_def ex_sys2_def ex_sys_def Let_def amap_delete_def)

end
